theory Spec2Isabelle
  imports Complex_Main
begin

section \<open>PolyLoc: values, errors and command-line arguments\<close>

text \<open>
  The development follows \<^verbatim>\<open>polyloc.py\<close>. Python exceptions are values of type
  \<open>error\<close>; a function that may raise returns \<open>error + 'a\<close> with \<open>Inl\<close> for the
  exception. The specification's error taxonomy (ConfigurationError, DataIntegrityError,
  ShapeMismatchError, ...) is a naming layer: the program itself raises \<^verbatim>\<open>ValueError\<close>
  with a message, and that is what the model records.
\<close>

datatype error =
    ValueError string
  | KeyError string
  | TypeError string
  | IOError string

text \<open>
  Floating-point values. The special values of IEEE arithmetic are explicit, because numpy
  produces them silently instead of raising. A finite value is idealised as an exact real:
  rounding, overflow and the sign of zero are not modelled. The arithmetic is therefore used
  only for what does not depend on rounding: which operations raise, and how a division by
  zero and the special values propagate.
\<close>

datatype fl = Fin real | PInf | NInf | NaN

definition inf_of_sign :: "real \<Rightarrow> fl" where
  "inf_of_sign s = (if s = 0 then NaN else if 0 < s then PInf else NInf)"

fun fsign :: "fl \<Rightarrow> real" where
  "fsign (Fin a) = sgn a"
| "fsign PInf = 1"
| "fsign NInf = - 1"
| "fsign NaN = 0"

fun fmul :: "fl \<Rightarrow> fl \<Rightarrow> fl" where
  "fmul (Fin a) (Fin b) = Fin (a * b)"
| "fmul NaN y = NaN"
| "fmul x NaN = NaN"
| "fmul x y = inf_of_sign (fsign x * fsign y)"

fun fadd :: "fl \<Rightarrow> fl \<Rightarrow> fl" where
  "fadd (Fin a) (Fin b) = Fin (a + b)"
| "fadd NaN y = NaN"
| "fadd x NaN = NaN"
| "fadd PInf NInf = NaN"
| "fadd NInf PInf = NaN"
| "fadd PInf y = PInf"
| "fadd NInf y = NInf"
| "fadd x PInf = PInf"
| "fadd x NInf = NInf"

fun fdiv :: "fl \<Rightarrow> fl \<Rightarrow> fl" where
  "fdiv NaN y = NaN"
| "fdiv x NaN = NaN"
| "fdiv (Fin a) (Fin b) = (if b = 0 then inf_of_sign (sgn a) else Fin (a / b))"
| "fdiv (Fin a) y = Fin 0"
| "fdiv x (Fin b) = inf_of_sign (fsign x * (if b < 0 then - 1 else 1))"
| "fdiv x y = NaN"

fun is_finite :: "fl \<Rightarrow> bool" where
  "is_finite (Fin a) = True"
| "is_finite x = False"

text \<open>The \<^verbatim>\<open>argparse\<close> namespace: one field per option declared in the main block.\<close>

record args =
  num_bins :: "int option"
  skip_Ckmedian :: bool
  compute_partitions :: bool
  compute_ldscores :: bool
  compute_polyloc_flag :: bool
  chr :: "int option"
  ld_wind_cm :: "fl option"
  ld_wind_kb :: "int option"
  ld_wind_snps :: "int option"
  chunk_size :: int
  keep :: "string option"
  sumstats :: "string option"
  posterior :: "string option"
  w_ld_chr :: "string option"
  bfile_chr :: "string option"
  output_prefix :: string

text \<open>
  \<^verbatim>\<open>check_args\<close>: the checks in the order of the source; the first one that fires
  decides the exception. The only change made to the arguments is the default LD window
  (the accompanying log warning is not part of the model). The field
  \<open>compute_polyloc_flag\<close> is \<^verbatim>\<open>args.compute_polyloc\<close>.
\<close>

definition check_args :: "args \<Rightarrow> error + args" where
  "check_args a =
    (if \<not> compute_partitions a \<and> \<not> compute_ldscores a \<and> \<not> compute_polyloc_flag a then
       Inl (ValueError ''must specify at least one of --compute-partitions, --compute-ldscores, --compute-polyloc'')
     else if compute_partitions a \<and> compute_polyloc_flag a \<and> \<not> compute_ldscores a then
       Inl (ValueError ''cannot use both --compute-partitions and --compute_polyloc without also specifying --compute-ldscores'')
     else if chr a \<noteq> None \<and> (compute_partitions a \<or> compute_polyloc_flag a) then
       Inl (ValueError ''--chr can only be specified when using only --compute-ldscores'')
     else if bfile_chr a \<noteq> None \<and> \<not> compute_ldscores a \<and> \<not> compute_partitions a then
       Inl (ValueError ''--bfile-chr can only be specified when using --compute-partitions or --compute-ldscores'')
     else if compute_ldscores a \<and> compute_polyloc_flag a \<and> \<not> compute_partitions a then
       Inl (ValueError ''cannot use both --compute-ldscores and --compute_polyloc without also specifying --compute-partitions'')
     else if posterior a \<noteq> None \<and> \<not> compute_partitions a then
       Inl (ValueError ''--posterior can only be specified together with --compute-partitions'')
     else if sumstats a \<noteq> None \<and> \<not> compute_polyloc_flag a then
       Inl (ValueError ''--sumstats can only be specified together with --compute-polyloc'')
     else if skip_Ckmedian a \<and> (case num_bins a of None \<Rightarrow> True | Some n \<Rightarrow> n \<le> 0) then
       Inl (ValueError ''You must specify --num-bins when using --skip-Ckmedian'')
     else if compute_partitions a \<and> bfile_chr a = None then
       Inl (ValueError ''You must specify --bfile-chr when you specify --compute-partitions'')
     else if compute_partitions a \<and> posterior a = None then
       Inl (ValueError ''--posterior must be specified when using --compute-partitions'')
     else if compute_ldscores a \<and> bfile_chr a = None then
       Inl (ValueError ''You must specify --bfile-chr when you specify --compute-ldscores'')
     else
       (let a1 = (if compute_ldscores a \<and> ld_wind_cm a = None \<and> ld_wind_kb a = None
                      \<and> ld_wind_snps a = None
                  then a\<lparr>ld_wind_cm := Some (Fin 1)\<rparr> else a)
        in if \<not> compute_ldscores a1
                \<and> \<not> (ld_wind_cm a1 = None \<and> ld_wind_kb a1 = None \<and> ld_wind_snps a1 = None) then
             Inl (ValueError ''--ld-wind parameters can only be specified together with --compute-ldscores'')
           else if \<not> compute_ldscores a1 \<and> keep a1 \<noteq> None then
             Inl (ValueError ''--keep can only be specified together with --compute-ldscores'')
           else if \<not> compute_ldscores a1 \<and> chr a1 \<noteq> None then
             Inl (ValueError ''--chr can only be specified together with --compute-ldscores'')
           else if compute_polyloc_flag a1 \<and> sumstats a1 = None then
             Inl (ValueError ''--sumstats must be specified when using --compute-polyloc'')
           else if compute_polyloc_flag a1 \<and> w_ld_chr a1 = None then
             Inl (ValueError ''--w-ld-chr must be specified when using --compute-polyloc'')
           else Inr a1))"

text \<open>The three messages of the stage-combination rules.\<close>

definition stage_rule_messages :: "string set" where
  "stage_rule_messages =
    {''must specify at least one of --compute-partitions, --compute-ldscores, --compute-polyloc'',
     ''cannot use both --compute-partitions and --compute_polyloc without also specifying --compute-ldscores'',
     ''cannot use both --compute-ldscores and --compute_polyloc without also specifying --compute-partitions''}"

text \<open>The flag combinations that the stage-combination rules forbid.\<close>

definition forbidden_stages :: "bool \<Rightarrow> bool \<Rightarrow> bool \<Rightarrow> bool" where
  "forbidden_stages p l h =
    ((\<not> p \<and> \<not> l \<and> \<not> h) \<or> (p \<and> h \<and> \<not> l) \<or> (l \<and> h \<and> \<not> p))"

text \<open>Arguments with the parser's defaults, used to build concrete invocations.\<close>

definition default_args :: args where
  "default_args =
    \<lparr>num_bins = None, skip_Ckmedian = False, compute_partitions = False,
     compute_ldscores = False, compute_polyloc_flag = False, chr = None, ld_wind_cm = None,
     ld_wind_kb = None, ld_wind_snps = None, chunk_size = 50, keep = None, sumstats = None,
     posterior = None, w_ld_chr = None, bfile_chr = None, output_prefix = ''out''\<rparr>"

text \<open>An invocation that requests the given stages and supplies what each stage needs.\<close>

definition stage_args :: "bool \<Rightarrow> bool \<Rightarrow> bool \<Rightarrow> args" where
  "stage_args p l h =
    default_args\<lparr>compute_partitions := p, compute_ldscores := l, compute_polyloc_flag := h,
      bfile_chr := (if p \<or> l then Some ''geno.'' else None),
      posterior := (if p then Some ''post.txt'' else None),
      sumstats := (if h then Some ''sumstats.txt'' else None),
      w_ld_chr := (if h then Some ''weights.'' else None)\<rparr>"

section \<open>Data frames\<close>

text \<open>
  A pandas cell is a boolean, an integer, a float or a string. A \<open>DataFrame\<close> has a row
  index (the labels, one per row) and its columns in order, each a name with the cells of
  that column by row position. A missing value is \<open>F NaN\<close>.
\<close>

datatype cell = B bool | I int | F fl | S string

record DataFrame =
  index :: "cell list"
  columns :: "(string \<times> cell list) list"

definition nrows :: "DataFrame \<Rightarrow> nat" where
  "nrows df = length (index df)"

definition ncols :: "DataFrame \<Rightarrow> nat" where
  "ncols df = length (columns df)"

definition colnames :: "DataFrame \<Rightarrow> string list" where
  "colnames df = map fst (columns df)"

text \<open>\<^verbatim>\<open>df[name]\<close>: the column, or \<^verbatim>\<open>KeyError\<close>.\<close>

definition getitem :: "DataFrame \<Rightarrow> string \<Rightarrow> error + cell list" where
  "getitem df name =
    (case map_of (columns df) name of None \<Rightarrow> Inl (KeyError name) | Some c \<Rightarrow> Inr c)"

text \<open>
  \<^verbatim>\<open>df[name] = values\<close>: an existing column is replaced in place, a new one is appended
  as the last column.
\<close>

definition setitem :: "DataFrame \<Rightarrow> string \<Rightarrow> cell list \<Rightarrow> DataFrame" where
  "setitem df name vals =
    (if name \<in> set (colnames df)
     then df\<lparr>columns := map (\<lambda>(n, c). if n = name then (n, vals) else (n, c)) (columns df)\<rparr>
     else df\<lparr>columns := columns df @ [(name, vals)]\<rparr>)"

text \<open>\<^verbatim>\<open>df[name] = v\<close> for a scalar \<open>v\<close>: the value in every row.\<close>

definition setitem_scalar :: "DataFrame \<Rightarrow> string \<Rightarrow> cell \<Rightarrow> DataFrame" where
  "setitem_scalar df name v = setitem df name (replicate (nrows df) v)"

definition column_or_nan :: "DataFrame \<Rightarrow> string \<Rightarrow> cell list" where
  "column_or_nan df name =
    (case map_of (columns df) name of
       None \<Rightarrow> replicate (nrows df) (F NaN)
     | Some c \<Rightarrow> c)"

text \<open>
  \<^verbatim>\<open>pd.concat([a, b], axis=0)\<close>: the rows of \<open>a\<close> followed by the rows of \<open>b\<close>. Columns are
  matched by name; the result has the columns of \<open>a\<close> in their order, then those only in
  \<open>b\<close>; a column absent from one frame is filled with missing values there. Cells are
  carried over as they are (a column that mixes kinds of values keeps each value).
\<close>

definition concat2 :: "DataFrame \<Rightarrow> DataFrame \<Rightarrow> DataFrame" where
  "concat2 a b =
    (let names = colnames a @ filter (\<lambda>n. n \<notin> set (colnames a)) (colnames b)
     in \<lparr>index = index a @ index b,
         columns = map (\<lambda>n. (n, column_or_nan a n @ column_or_nan b n)) names\<rparr>)"

fun concat_frames :: "DataFrame list \<Rightarrow> error + DataFrame" where
  "concat_frames [] = Inl (ValueError ''No objects to concatenate'')"
| "concat_frames (d # ds) = Inr (foldl concat2 d ds)"

text \<open>
  \<^verbatim>\<open>df.loc[labels, names]\<close>: for each label in turn every row carrying that label, so a
  label that occurs twice in the index yields two rows each time it is asked for; a label or
  a column name that does not occur raises \<^verbatim>\<open>KeyError\<close>.
\<close>

definition loc :: "DataFrame \<Rightarrow> cell list \<Rightarrow> string list \<Rightarrow> error + DataFrame" where
  "loc df labels names =
    (if list_ex (\<lambda>l. l \<notin> set (index df)) labels then Inl (KeyError ''label not in index'')
     else if list_ex (\<lambda>n. n \<notin> set (colnames df)) names then Inl (KeyError ''column not in frame'')
     else
       (let pos = concat (map (\<lambda>l. filter (\<lambda>i. index df ! i = l) [0..<nrows df]) labels)
        in Inr \<lparr>index = map (\<lambda>i. index df ! i) pos,
                columns = map (\<lambda>n. (n, map (\<lambda>i. column_or_nan df n ! i) pos)) names\<rparr>))"

text \<open>\<^verbatim>\<open>df.drop(columns=names)\<close>: every name must be a column.\<close>

definition drop_columns :: "DataFrame \<Rightarrow> string list \<Rightarrow> error + DataFrame" where
  "drop_columns df names =
    (if list_ex (\<lambda>n. n \<notin> set (colnames df)) names then Inl (KeyError ''not found in axis'')
     else Inr (df\<lparr>columns := filter (\<lambda>(n, c). n \<notin> set names) (columns df)\<rparr>))"

text \<open>
  Element-wise \<^verbatim>\<open>+\<close> of two columns of one frame. Strings concatenate and integers add;
  any other pair of operands is reported as \<^verbatim>\<open>TypeError\<close>.
\<close>

fun cell_add :: "cell \<Rightarrow> cell \<Rightarrow> cell option" where
  "cell_add (S a) (S b) = Some (S (a @ b))"
| "cell_add (I a) (I b) = Some (I (a + b))"
| "cell_add x y = None"

definition series_add :: "cell list \<Rightarrow> cell list \<Rightarrow> error + cell list" where
  "series_add xs ys =
    (case those (map2 cell_add xs ys) of
       None \<Rightarrow> Inl (TypeError ''unsupported operand type(s) for +'')
     | Some zs \<Rightarrow> Inr zs)"

text \<open>\<^verbatim>\<open>index.isin(other)\<close>: one boolean per label.\<close>

definition isin :: "cell list \<Rightarrow> cell list \<Rightarrow> bool list" where
  "isin xs ys = map (\<lambda>x. x \<in> set ys) xs"

text \<open>Numeric readings of a cell, for sums and products.\<close>

fun cell_int :: "cell \<Rightarrow> int option" where
  "cell_int (B b) = Some (if b then 1 else 0)"
| "cell_int (I i) = Some i"
| "cell_int c = None"

fun cell_float :: "cell \<Rightarrow> fl option" where
  "cell_float (B b) = Some (Fin (if b then 1 else 0))"
| "cell_float (I i) = Some (Fin (of_int i))"
| "cell_float (F x) = Some x"
| "cell_float (S s) = None"

text \<open>\<^verbatim>\<open>Series.sum()\<close> and \<^verbatim>\<open>Series.cumsum()\<close> skip missing values (\<^verbatim>\<open>skipna=True\<close>).\<close>

definition fsum :: "fl list \<Rightarrow> fl" where
  "fsum xs = foldl fadd (Fin 0) (filter (\<lambda>x. x \<noteq> NaN) xs)"

fun cumsum_from :: "fl \<Rightarrow> fl list \<Rightarrow> fl list" where
  "cumsum_from acc [] = []"
| "cumsum_from acc (x # xs) =
     (if x = NaN then NaN # cumsum_from acc xs
      else fadd acc x # cumsum_from (fadd acc x) xs)"

definition cumsum :: "fl list \<Rightarrow> fl list" where
  "cumsum xs = cumsum_from (Fin 0) xs"

text \<open>
  Sum of one column: booleans count as 0 and 1, a column of booleans and integers has an
  integer sum, a column with floats a float sum, a column with a string raises. A column
  without any cell (a frame with no rows) has the float sum 0.0.
\<close>

definition column_sum :: "cell list \<Rightarrow> error + cell" where
  "column_sum cs =
    (if cs = [] then Inr (F (Fin 0))
     else
       (case those (map cell_int cs) of
          Some ns \<Rightarrow> Inr (I (sum_list ns))
        | None \<Rightarrow>
            (case those (map cell_float cs) of
               Some xs \<Rightarrow> Inr (F (fsum xs))
             | None \<Rightarrow> Inl (TypeError ''unsupported operand type(s) for +''))))"

text \<open>\<^verbatim>\<open>df.sum(axis=0).values\<close>: the sum of every column, in column order.\<close>

fun sum_columns :: "(string \<times> cell list) list \<Rightarrow> error + cell list" where
  "sum_columns [] = Inr []"
| "sum_columns ((n, c) # cols) =
     (case column_sum c of
        Inl e \<Rightarrow> Inl e
      | Inr s \<Rightarrow> (case sum_columns cols of Inl e \<Rightarrow> Inl e | Inr ss \<Rightarrow> Inr (s # ss)))"

text \<open>
  The format \<^verbatim>\<open>'%d'\<close>: the decimal digits of the number, most significant first, with a
  minus sign for a negative one.
\<close>

definition digit_char :: "nat \<Rightarrow> char" where
  "digit_char d = char_of (d + 48)"

function decimal_digits :: "nat \<Rightarrow> nat list" where
  "decimal_digits n = (if n < 10 then [n] else decimal_digits (n div 10) @ [n mod 10])"
  by pat_completeness auto
termination
  by (relation "measure id") auto

declare decimal_digits.simps [simp del]

definition format_d :: "int \<Rightarrow> string" where
  "format_d i =
    (if i < 0 then CHR ''-'' # map digit_char (decimal_digits (nat (- i)))
     else map digit_char (decimal_digits (nat i)))"

section \<open>Files\<close>

text \<open>
  What \<^verbatim>\<open>to_csv\<close> writes is kept structured: the separator, the float format and the
  table (header names with their columns); the rendering of numbers as text is not modelled.
  The file system maps a path to the file stored there.
\<close>

record csv_file =
  sep :: string
  float_format :: "string option"
  table :: "(string \<times> cell list) list"

datatype disk_file = Csv csv_file | Parquet DataFrame

type_synonym files = "string \<Rightarrow> disk_file option"

section \<open>The partition stage\<close>

text \<open>
  Modelled from the spec: \<^verbatim>\<open>SNP_COLUMNS\<close> is imported from \<^verbatim>\<open>polyfun\<close>, which is not part
  of the sources at hand; it names the identity columns of a variant (chromosome, id,
  position and the two alleles).
\<close>

definition SNP_COLUMNS :: "string list" where
  "SNP_COLUMNS = [''CHR'', ''SNP'', ''BP'', ''A1'', ''A2'']"

text \<open>One line of a \<^verbatim>\<open>.bim\<close> file, with the six fields that \<^verbatim>\<open>read_table\<close> is told to name.\<close>

record bim_row =
  bim_CHR :: int
  bim_SNP :: string
  bim_CM :: fl
  bim_BP :: int
  bim_A1 :: string
  bim_A2 :: string

definition bim_frame :: "bim_row list \<Rightarrow> DataFrame" where
  "bim_frame rows =
    \<lparr>index = map (\<lambda>i. I (int i)) [0..<length rows],
     columns =
       [(''CHR'', map (\<lambda>r. I (bim_CHR r)) rows),
        (''SNP'', map (\<lambda>r. S (bim_SNP r)) rows),
        (''CM'', map (\<lambda>r. F (bim_CM r)) rows),
        (''BP'', map (\<lambda>r. I (bim_BP r)) rows),
        (''A1'', map (\<lambda>r. S (bim_A1 r)) rows),
        (''A2'', map (\<lambda>r. S (bim_A2 r)) rows)]\<rparr>"

text \<open>
  \<^verbatim>\<open>df['SNP'] + df['A1'] + df['A2']\<close>, the key of every row, evaluated left to right.
\<close>

definition variant_keys :: "DataFrame \<Rightarrow> error + cell list" where
  "variant_keys df =
    (case getitem df ''SNP'' of Inl e \<Rightarrow> Inl e | Inr snp \<Rightarrow>
     case getitem df ''A1'' of Inl e \<Rightarrow> Inl e | Inr a1 \<Rightarrow>
     case series_add snp a1 of Inl e \<Rightarrow> Inl e | Inr k \<Rightarrow>
     case getitem df ''A2'' of Inl e \<Rightarrow> Inl e | Inr a2 \<Rightarrow>
     series_add k a2)"

text \<open>\<^verbatim>\<open>df_bim.index[~df_bim.index.isin(self.df_bins.index)]\<close>\<close>

definition new_snps :: "DataFrame \<Rightarrow> DataFrame \<Rightarrow> cell list" where
  "new_snps df_bim df_bins =
    map fst (filter (\<lambda>(k, m). \<not> m) (zip (index df_bim) (isin (index df_bim) (index df_bins))))"

text \<open>
  The rows synthesised for the variants missing from the posterior file, as they are after
  the loop over \<^verbatim>\<open>self.df_bins.columns\<close>: the identity columns selected from the
  \<^verbatim>\<open>.bim\<close> data, then every column name of \<open>df_bins\<close> assigned \<^verbatim>\<open>False\<close>.
\<close>

definition df_bins_new :: "DataFrame \<Rightarrow> DataFrame \<Rightarrow> error + DataFrame" where
  "df_bins_new df_bim df_bins =
    (case loc df_bim (new_snps df_bim df_bins) SNP_COLUMNS of
       Inl e \<Rightarrow> Inl e
     | Inr d \<Rightarrow> Inr (fold (\<lambda>colname d'. setitem_scalar d' colname (B False)) (colnames df_bins) d))"

definition bin_colname :: "int \<Rightarrow> string" where
  "bin_colname i = ''snpvar_bin'' @ format_d i"

text \<open>The body of the branch that adds the bin for the variants not in the posterior file.\<close>

definition add_residual_bin :: "DataFrame \<Rightarrow> DataFrame \<Rightarrow> error + DataFrame" where
  "add_residual_bin df_bim df_bins =
    (case df_bins_new df_bim df_bins of
       Inl e \<Rightarrow> Inl e
     | Inr d \<Rightarrow>
         (let new_colname = bin_colname (int (ncols d) - int (length SNP_COLUMNS) + 1)
          in Inr (concat2 (setitem_scalar df_bins new_colname (B False))
                          (setitem_scalar d new_colname (B True)))))"

text \<open>
  The bin sizes: the index \<^verbatim>\<open>np.arange(1, shape[1] - len(SNP_COLUMNS) + 1)\<close>, named
  \<^verbatim>\<open>BIN\<close>, and the column \<^verbatim>\<open>BIN_SIZE\<close> with the sums of the columns that remain once
  the identity columns are dropped. Assigning the sums raises when their number differs from
  the length of the index.
\<close>

definition df_binsize :: "DataFrame \<Rightarrow> error + DataFrame" where
  "df_binsize df_bins =
    (let idx = map I [1 .. int (ncols df_bins) - int (length SNP_COLUMNS)]
     in case drop_columns df_bins SNP_COLUMNS of Inl e \<Rightarrow> Inl e | Inr d \<Rightarrow>
        case sum_columns (columns d) of Inl e \<Rightarrow> Inl e | Inr totals \<Rightarrow>
          (if length totals \<noteq> length idx
           then Inl (ValueError ''Length of values does not match length of index'')
           else Inr \<lparr>index = idx, columns = [(''BIN_SIZE'', totals)]\<rparr>))"

text \<open>\<^verbatim>\<open>df_binsize.to_csv(path, sep='\t', index=True)\<close> with the index named \<^verbatim>\<open>BIN\<close>.\<close>

definition binsize_csv :: "DataFrame \<Rightarrow> csv_file" where
  "binsize_csv d =
    \<lparr>sep = [CHR 0x09], float_format = None, table = (''BIN'', index d) # columns d\<rparr>"

text \<open>
  \<^verbatim>\<open>polyloc_partitions\<close>, from the point where the posterior file has been loaded and
  partitioned by the inherited \<^verbatim>\<open>partition_snps_to_bins\<close>: \<open>df_bins0\<close> is
  \<^verbatim>\<open>self.df_bins\<close> as the partitioner leaves it, \<open>read_bim\<close> gives the table that
  \<^verbatim>\<open>read_table\<close> parses from the \<^verbatim>\<open>.bim\<close> file of a chromosome (\<^verbatim>\<open>check_files\<close> has
  verified that the 22 files exist), and \<open>save_bins_to_disk\<close> is the inherited method that
  persists the matrix. The result is the final \<^verbatim>\<open>self.df_bins\<close> or the exception,
  together with the file system as it is left: an exception raised before
  \<^verbatim>\<open>save_bins_to_disk\<close> leaves the file system as it was.
\<close>

definition polyloc_partitions ::
  "(args \<Rightarrow> DataFrame \<Rightarrow> files \<Rightarrow> files) \<Rightarrow> args \<Rightarrow> (nat \<Rightarrow> bim_row list) \<Rightarrow> DataFrame
    \<Rightarrow> files \<Rightarrow> (error + DataFrame) \<times> files" where
  "polyloc_partitions save_bins_to_disk a read_bim df_bins0 fs =
    (case concat_frames (map (\<lambda>chr_num. bim_frame (read_bim chr_num)) [1..<23]) of
       Inl e \<Rightarrow> (Inl e, fs) | Inr df_bim0 \<Rightarrow>
     case variant_keys df_bim0 of Inl e \<Rightarrow> (Inl e, fs) | Inr bim_keys \<Rightarrow>
     case variant_keys df_bins0 of Inl e \<Rightarrow> (Inl e, fs) | Inr bins_keys \<Rightarrow>
       (let df_bim = df_bim0\<lparr>index := bim_keys\<rparr>;
            df_bins = df_bins0\<lparr>index := bins_keys\<rparr>
        in if list_ex Not (isin (index df_bins) (index df_bim)) then
             (Inl (ValueError ''Found variants in posterior file that are not found in the plink files''), fs)
           else
             (case (if nrows df_bins < nrows df_bim then add_residual_bin df_bim df_bins
                    else Inr df_bins) of
                Inl e \<Rightarrow> (Inl e, fs)
              | Inr df_bins' \<Rightarrow>
                  (let fs1 = save_bins_to_disk a df_bins' fs
                   in case df_binsize df_bins' of
                        Inl e \<Rightarrow> (Inl e, fs1)
                      | Inr d \<Rightarrow>
                          (Inr df_bins',
                           fs1(output_prefix a @ ''.binsize'' \<mapsto> Csv (binsize_csv d)))))))"

text \<open>The universe of variants: the rows of the 22 autosomes' \<^verbatim>\<open>.bim\<close> tables in order.\<close>

definition universe :: "(nat \<Rightarrow> bim_row list) \<Rightarrow> bim_row list" where
  "universe read_bim = concat (map read_bim [1..<23])"

definition bim_key :: "bim_row \<Rightarrow> cell" where
  "bim_key r = S (bim_SNP r @ bim_A1 r @ bim_A2 r)"

text \<open>
  The bin columns of a matrix are its columns other than the identity columns;
  \<open>row_trues\<close> counts the bins a row is assigned to.
\<close>

definition bin_columns :: "DataFrame \<Rightarrow> (string \<times> cell list) list" where
  "bin_columns df = filter (\<lambda>(n, c). n \<notin> set SNP_COLUMNS) (columns df)"

definition row_trues :: "DataFrame \<Rightarrow> nat \<Rightarrow> nat" where
  "row_trues df i = length (filter (\<lambda>(n, c). c ! i = B True) (bin_columns df))"

definition one_hot :: "DataFrame \<Rightarrow> bool" where
  "one_hot df = list_all (\<lambda>i. row_trues df i = 1) [0..<nrows df]"

fun is_bool :: "cell \<Rightarrow> bool" where
  "is_bool (B b) = True"
| "is_bool c = False"

text \<open>
  A well-formed bin-assignment matrix: distinct column names that include the identity
  columns, every column as long as the index, and booleans in the bin columns.
\<close>

definition wf_matrix :: "DataFrame \<Rightarrow> bool" where
  "wf_matrix df =
    (distinct (colnames df) \<and> set SNP_COLUMNS \<subseteq> set (colnames df)
     \<and> list_all (\<lambda>(n, c). length c = nrows df) (columns df)
     \<and> list_all (\<lambda>(n, c). list_all is_bool c) (bin_columns df))"

text \<open>The name that the next bin column would get is not yet a column of the matrix.\<close>

definition next_bin_free :: "DataFrame \<Rightarrow> bool" where
  "next_bin_free df = (bin_colname (int (length (bin_columns df)) + 1) \<notin> set (colnames df))"

text \<open>
  The \<^verbatim>\<open>.bim\<close> table of the universe with its keys as index, which is \<^verbatim>\<open>df_bim\<close> once
  the index has been assigned.
\<close>

definition keyed_bim :: "bim_row list \<Rightarrow> DataFrame" where
  "keyed_bim rows = \<lparr>index = map bim_key rows, columns = columns (bim_frame rows)\<rparr>"

text \<open>
  The labels of the rows that \<^verbatim>\<open>loc\<close> selects for the keys of the universe that are not
  keys of the posterior matrix: each such key as many times as it occurs in the universe,
  once for every time it is asked for.
\<close>

definition residual_labels :: "cell list \<Rightarrow> cell list \<Rightarrow> cell list" where
  "residual_labels bim_keys bins_keys =
    concat (map (\<lambda>l. filter (\<lambda>k. k = l) bim_keys) (filter (\<lambda>k. k \<notin> set bins_keys) bim_keys))"

text \<open>
  A matrix extended by the bin for the given row labels: the labelled rows are appended with
  \<^verbatim>\<open>False\<close> in every existing column, and a last column, named after the number of
  bin columns plus one, is \<^verbatim>\<open>False\<close> in the existing rows and \<^verbatim>\<open>True\<close> in the new ones.
\<close>

definition with_residual :: "DataFrame \<Rightarrow> cell list \<Rightarrow> DataFrame" where
  "with_residual df_bins labels =
    \<lparr>index = index df_bins @ labels,
     columns =
       map (\<lambda>(n, c). (n, c @ replicate (length labels) (B False))) (columns df_bins)
       @ [(bin_colname (int (length (bin_columns df_bins)) + 1),
           replicate (nrows df_bins) (B False) @ replicate (length labels) (B True))]\<rparr>"

text \<open>The number of \<^verbatim>\<open>True\<close> cells of a column.\<close>

definition count_true :: "cell list \<Rightarrow> nat" where
  "count_true c = length (filter (\<lambda>x. x = B True) c)"

text \<open>The cell that the sum of a boolean column is: its count, or 0.0 for a column without cells.\<close>

definition count_cell :: "cell list \<Rightarrow> cell" where
  "count_cell c = (if c = [] then F (Fin 0) else I (int (count_true c)))"

section \<open>The localization stage\<close>

text \<open>
  What \<^verbatim>\<open>compute_polyloc\<close> reads from the regression result left by \<^verbatim>\<open>run_ldsc\<close>: the
  first row of \<^verbatim>\<open>jknife.est\<close>, \<^verbatim>\<open>n_annot\<close> and \<^verbatim>\<open>Nbar\<close>.
\<close>

record hsq =
  est0 :: "fl list"
  n_annot :: nat
  Nbar :: fl

text \<open>\<^verbatim>\<open>taus = jknife.est[0, :hsqhat.n_annot] / hsqhat.Nbar\<close>\<close>

definition taus :: "hsq \<Rightarrow> fl list" where
  "taus h = map (\<lambda>e. fdiv e (Nbar h)) (take (n_annot h) (est0 h))"

text \<open>
  \<^verbatim>\<open>taus * df_polyloc['BIN_SIZE']\<close>, an array times a column. There is no length check
  of its own: numpy broadcasts, so equal lengths multiply element by element, an array of
  length one is stretched over the column, and any other pair of lengths raises. The
  product is then given the index of the column, which raises when a column of length one
  was stretched over a longer array.
\<close>

definition ndarray_mul_series :: "fl list \<Rightarrow> cell list \<Rightarrow> error + fl list" where
  "ndarray_mul_series ts col =
    (if length ts \<noteq> length col \<and> length ts \<noteq> 1 \<and> length col \<noteq> 1 then
       Inl (ValueError ''operands could not be broadcast together'')
     else
       (case those (map cell_float col) of
          None \<Rightarrow> Inl (TypeError ''unsupported operand type(s) for *'')
        | Some xs \<Rightarrow>
            if length ts = length xs then Inr (map2 fmul ts xs)
            else if length ts = 1 then Inr (map (fmul (hd ts)) xs)
            else Inl (ValueError ''Length of values does not match length of index'')))"

text \<open>
  The table \<^verbatim>\<open>df_polyloc\<close>: the bin sizes as read from the \<^verbatim>\<open>.binsize\<close> file, with the
  columns \<^verbatim>\<open>%H2\<close> (contribution, then divided by the sum of the contributions) and
  \<^verbatim>\<open>SUM_%H2\<close> (its cumulative sum). The division is carried out whatever the sum is.
\<close>

definition df_polyloc :: "hsq \<Rightarrow> DataFrame \<Rightarrow> error + DataFrame" where
  "df_polyloc h binsize =
    (case getitem binsize ''BIN_SIZE'' of Inl e \<Rightarrow> Inl e | Inr sizes \<Rightarrow>
     case ndarray_mul_series (taus h) sizes of Inl e \<Rightarrow> Inl e | Inr contrib \<Rightarrow>
       (let d1 = setitem binsize ''%H2'' (map F contrib);
            h2 = map (\<lambda>x. fdiv x (fsum contrib)) contrib;
            d2 = setitem d1 ''%H2'' (map F h2)
        in Inr (setitem d2 ''SUM_%H2'' (map F (cumsum h2)))))"

text \<open>\<^verbatim>\<open>df_polyloc.to_csv(path, sep='\t', float_format='%0.5f', index=False)\<close>\<close>

definition polyloc_csv :: "DataFrame \<Rightarrow> csv_file" where
  "polyloc_csv d = \<lparr>sep = [CHR 0x09], float_format = Some ''%0.5f'', table = columns d\<rparr>"

text \<open>
  \<^verbatim>\<open>compute_polyloc\<close>, from the point where \<^verbatim>\<open>run_ldsc\<close> has returned: \<open>h\<close> is the
  regression result and \<open>binsize\<close> the table that \<^verbatim>\<open>read_table\<close> parses from the
  \<^verbatim>\<open>.binsize\<close> file.
\<close>

definition compute_polyloc :: "args \<Rightarrow> hsq \<Rightarrow> DataFrame \<Rightarrow> files \<Rightarrow> (error + unit) \<times> files" where
  "compute_polyloc a h binsize fs =
    (case df_polyloc h binsize of
       Inl e \<Rightarrow> (Inl e, fs)
     | Inr d \<Rightarrow> (Inr (), fs(output_prefix a @ ''.polyloc'' \<mapsto> Csv (polyloc_csv d))))"

section \<open>Concrete inputs\<close>

text \<open>The bin sizes 2, 1, 2 of three bins, as read back from a \<^verbatim>\<open>.binsize\<close> file.\<close>

definition ex_binsize :: DataFrame where
  "ex_binsize =
    \<lparr>index = [I 0, I 1, I 2],
     columns = [(''BIN'', [I 1, I 2, I 3]), (''BIN_SIZE'', [I 2, I 1, I 2])]\<rparr>"

text \<open>
  A regression result with the given first row of estimates (the last entry is the
  intercept, so there is one annotation fewer) and \<^verbatim>\<open>Nbar\<close> equal to one.
\<close>

definition ex_hsq :: "real list \<Rightarrow> hsq" where
  "ex_hsq es = \<lparr>est0 = map Fin es, n_annot = length es - 1, Nbar = Fin 1\<rparr>"

text \<open>A \<^verbatim>\<open>.bim\<close> line for a variant with alleles A and C.\<close>

definition variant_row :: "int \<Rightarrow> string \<Rightarrow> bim_row" where
  "variant_row c s =
    \<lparr>bim_CHR = c, bim_SNP = s, bim_CM = Fin 0, bim_BP = 100, bim_A1 = ''A'', bim_A2 = ''C''\<rparr>"

text \<open>A universe of five variants: three on chromosome 1 and two on chromosome 2.\<close>

definition ex_bim :: "nat \<Rightarrow> bim_row list" where
  "ex_bim c =
    (if c = 1 then [variant_row 1 ''rs1'', variant_row 1 ''rs2'', variant_row 1 ''rs3'']
     else if c = 2 then [variant_row 2 ''rs4'', variant_row 2 ''rs5'']
     else [])"

text \<open>A universe in which the line of \<^verbatim>\<open>rs1\<close> occurs twice.\<close>

definition dup_bim :: "nat \<Rightarrow> bim_row list" where
  "dup_bim c =
    (if c = 1 then [variant_row 1 ''rs1'', variant_row 1 ''rs1'', variant_row 1 ''rs2'',
                    variant_row 1 ''rs3'']
     else [])"

text \<open>A universe of two variants only.\<close>

definition small_bim :: "nat \<Rightarrow> bim_row list" where
  "small_bim c = (if c = 1 then [variant_row 1 ''rs1'', variant_row 1 ''rs2''] else [])"

text \<open>
  The matrix of a posterior file with the variants \<^verbatim>\<open>rs1\<close>, \<^verbatim>\<open>rs2\<close>, \<^verbatim>\<open>rs3\<close>, labelled
  with the bins 1, 1 and 2.
\<close>

definition ex_bins :: DataFrame where
  "ex_bins =
    \<lparr>index = [I 0, I 1, I 2],
     columns =
       [(''CHR'', [I 1, I 1, I 1]),
        (''SNP'', [S ''rs1'', S ''rs2'', S ''rs3'']),
        (''BP'', [I 100, I 100, I 100]),
        (''A1'', [S ''A'', S ''A'', S ''A'']),
        (''A2'', [S ''C'', S ''C'', S ''C'']),
        (''snpvar_bin1'', [B True, B True, B False]),
        (''snpvar_bin2'', [B False, B False, B True])]\<rparr>"

text \<open>The keys of its rows.\<close>

definition ex_keys :: "cell list" where
  "ex_keys = [S ''rs1AC'', S ''rs2AC'', S ''rs3AC'']"

text \<open>A stand-in for the inherited \<^verbatim>\<open>save_bins_to_disk\<close>: it stores the matrix as one file.\<close>

definition store_bins :: "args \<Rightarrow> DataFrame \<Rightarrow> files \<Rightarrow> files" where
  "store_bins a d fs = fs(output_prefix a @ ''.bins'' \<mapsto> Parquet d)"

text \<open>A universe of three variants, all on chromosome 1.\<close>

definition three_bim :: "nat \<Rightarrow> bim_row list" where
  "three_bim c =
    (if c = 1 then [variant_row 1 ''rs1'', variant_row 1 ''rs2'', variant_row 1 ''rs3''] else [])"

text \<open>A universe in which \<^verbatim>\<open>rs3\<close> is listed on chromosome 1 and again on chromosome 2.\<close>

definition rs3_twice_bim :: "nat \<Rightarrow> bim_row list" where
  "rs3_twice_bim c =
    (if c = 1 then [variant_row 1 ''rs1'', variant_row 1 ''rs2'', variant_row 1 ''rs3'']
     else if c = 2 then [variant_row 2 ''rs3'']
     else [])"


text \<open>
  The matrix of a posterior file in which \<^verbatim>\<open>rs1\<close> occurs twice, with the rows labelled
  with the bins 1, 1 and 2.
\<close>

definition dup_bins :: DataFrame where
  "dup_bins =
    \<lparr>index = [I 0, I 1, I 2],
     columns =
       [(''CHR'', [I 1, I 1, I 1]),
        (''SNP'', [S ''rs1'', S ''rs1'', S ''rs2'']),
        (''BP'', [I 100, I 100, I 100]),
        (''A1'', [S ''A'', S ''A'', S ''A'']),
        (''A2'', [S ''C'', S ''C'', S ''C'']),
        (''snpvar_bin1'', [B True, B True, B False]),
        (''snpvar_bin2'', [B False, B False, B True])]\<rparr>"

section \<open>Stage-combination validation\<close>

lemma check_args_no_stage:
  assumes "\<not> compute_partitions a" "\<not> compute_ldscores a" "\<not> compute_polyloc_flag a"
  shows "\<exists>m. check_args a = Inl (ValueError m)"
  using assms by (simp add: check_args_def)

lemma check_args_skip_ldscores:
  assumes "compute_partitions a" "\<not> compute_ldscores a" "compute_polyloc_flag a"
  shows "\<exists>m. check_args a = Inl (ValueError m)"
  using assms by (simp add: check_args_def)

lemma check_args_skip_partitions:
  assumes "\<not> compute_partitions a" "compute_ldscores a" "compute_polyloc_flag a"
  shows "\<exists>m. check_args a = Inl (ValueError m)"
  using assms by (cases "chr a") (simp_all add: check_args_def)

lemma check_args_forbidden:
  assumes "forbidden_stages (compute_partitions a) (compute_ldscores a) (compute_polyloc_flag a)"
  shows "\<exists>m. check_args a = Inl (ValueError m)"
  using assms check_args_no_stage [of a] check_args_skip_ldscores [of a]
    check_args_skip_partitions [of a]
  unfolding forbidden_stages_def by blast

lemma raise_other:
  "s \<noteq> m \<Longrightarrow> R \<noteq> Inl (ValueError m) \<Longrightarrow>
   (if c then Inl (ValueError s) else R) \<noteq> (Inl (ValueError m) :: error + 'a)"
  by simp

lemma check_args_other_message:
  assumes "\<not> forbidden_stages (compute_partitions a) (compute_ldscores a) (compute_polyloc_flag a)"
    and "m \<in> stage_rule_messages"
  shows "check_args a \<noteq> Inl (ValueError m)"
proof -
  have c1: "\<not> (\<not> compute_partitions a \<and> \<not> compute_ldscores a \<and> \<not> compute_polyloc_flag a)"
    and c2: "\<not> (compute_partitions a \<and> compute_polyloc_flag a \<and> \<not> compute_ldscores a)"
    and c5: "\<not> (compute_ldscores a \<and> compute_polyloc_flag a \<and> \<not> compute_partitions a)"
    using assms(1) unfolding forbidden_stages_def by blast+
  have other: "check_args a \<noteq> Inl (ValueError s)" if "s \<in> stage_rule_messages" for s
    using that unfolding stage_rule_messages_def insert_iff empty_iff
  proof (elim disjE FalseE)
    assume s: "s = ''must specify at least one of --compute-partitions, --compute-ldscores, --compute-polyloc''"
    show ?thesis
      unfolding s check_args_def Let_def if_not_P [OF c1] if_not_P [OF c2] if_not_P [OF c5]
      by (intro raise_other; simp)
  next
    assume s: "s = ''cannot use both --compute-partitions and --compute_polyloc without also specifying --compute-ldscores''"
    show ?thesis
      unfolding s check_args_def Let_def if_not_P [OF c1] if_not_P [OF c2] if_not_P [OF c5]
      by (intro raise_other; simp)
  next
    assume s: "s = ''cannot use both --compute-ldscores and --compute_polyloc without also specifying --compute-partitions''"
    show ?thesis
      unfolding s check_args_def Let_def if_not_P [OF c1] if_not_P [OF c2] if_not_P [OF c5]
      by (intro raise_other; simp)
  qed
  from other [OF assms(2)] show ?thesis .
qed

lemma check_args_stage_message:
  assumes "check_args a = Inl (ValueError m)" and "m \<in> stage_rule_messages"
  shows "forbidden_stages (compute_partitions a) (compute_ldscores a) (compute_polyloc_flag a)"
  using assms check_args_other_message [of a m] by blast

lemma check_args_stage_args:
  assumes "\<not> forbidden_stages p l h"
  shows "\<exists>a'. check_args (stage_args p l h) = Inr a'"
  using assms unfolding forbidden_stages_def
  by (cases p; cases l; cases h) (simp_all add: check_args_def stage_args_def default_args_def)

text \<open>
  C9. For every combination of the three stage flags, \<open>check_args\<close> raises when no flag is
  set, when partition and localize are set without ldscore, and when ldscore and localize
  are set without partition. No other combination is rejected by these rules: an exception
  carrying one of the three stage-rule messages only occurs for those combinations, and
  every other combination is accepted once the parameters of its stages are supplied.
\<close>

theorem check_args_stage_combinations:
  "(forbidden_stages (compute_partitions a) (compute_ldscores a) (compute_polyloc_flag a)
      \<longrightarrow> (\<exists>m. check_args a = Inl (ValueError m)))
   \<and> (check_args a = Inl (ValueError m) \<and> m \<in> stage_rule_messages
      \<longrightarrow> forbidden_stages (compute_partitions a) (compute_ldscores a) (compute_polyloc_flag a))
   \<and> (\<forall>p l h. \<not> forbidden_stages p l h \<longrightarrow>
        (\<exists>b b'. compute_partitions b = p \<and> compute_ldscores b = l \<and> compute_polyloc_flag b = h
           \<and> check_args b = Inr b'))"
proof (intro conjI impI allI)
  assume "forbidden_stages (compute_partitions a) (compute_ldscores a) (compute_polyloc_flag a)"
  then show "\<exists>m. check_args a = Inl (ValueError m)"
    by (rule check_args_forbidden)
next
  assume "check_args a = Inl (ValueError m) \<and> m \<in> stage_rule_messages"
  then show "forbidden_stages (compute_partitions a) (compute_ldscores a) (compute_polyloc_flag a)"
    using check_args_stage_message by blast
next
  fix p l h
  assume ok: "\<not> forbidden_stages p l h"
  then obtain b' where "check_args (stage_args p l h) = Inr b'"
    using check_args_stage_args by blast
  moreover have "compute_partitions (stage_args p l h) = p"
    and "compute_ldscores (stage_args p l h) = l"
    and "compute_polyloc_flag (stage_args p l h) = h"
    by (simp_all add: stage_args_def)
  ultimately show "\<exists>b b'. compute_partitions b = p \<and> compute_ldscores b = l
      \<and> compute_polyloc_flag b = h \<and> check_args b = Inr b'"
    by blast
qed

theorem check_args_stage_combinations_witness:
  "forbidden_stages True False True
   \<and> (\<exists>m. check_args (default_args\<lparr>compute_partitions := True, compute_polyloc_flag := True\<rparr>)
        = Inl (ValueError m))"
proof -
  let ?a = "default_args\<lparr>compute_partitions := True, compute_polyloc_flag := True\<rparr>"
  have f: "forbidden_stages (compute_partitions ?a) (compute_ldscores ?a) (compute_polyloc_flag ?a)"
    by (simp add: forbidden_stages_def default_args_def)
  have "\<exists>m. check_args ?a = Inl (ValueError m)"
    using check_args_stage_combinations [of ?a] f by blast
  moreover have "forbidden_stages True False True"
    by (simp add: forbidden_stages_def)
  ultimately show ?thesis by blast
qed

section \<open>The localization stage: properties\<close>

lemma map_of_replace_other:
  "m \<noteq> n \<Longrightarrow>
   map_of (map (\<lambda>(k, c). if k = n then (k, v) else (k, c)) cols) m = map_of cols m"
  by (induction cols) auto

lemma map_of_replace_same:
  "n \<in> set (map fst cols) \<Longrightarrow>
   map_of (map (\<lambda>(k, c). if k = n then (k, v) else (k, c)) cols) n = Some v"
  by (induction cols) auto

lemma getitem_setitem:
  "getitem (setitem df n v) m = (if m = n then Inr v else getitem df m)"
proof (cases "n \<in> set (colnames df)")
  case True
  then show ?thesis
    by (simp add: getitem_def setitem_def colnames_def map_of_replace_other map_of_replace_same)
next
  case False
  then have "map_of (columns df) n = None"
    by (simp add: colnames_def map_of_eq_None_iff)
  with False show ?thesis
    by (simp add: getitem_def setitem_def map_add_def split: option.splits)
qed

lemma those_cell_float_I: "those (map (cell_float \<circ> I) ss) = Some (map (\<lambda>s. Fin (of_int s)) ss)"
  by (induction ss) simp_all

lemma fdiv_zero_not_finite: "\<not> is_finite (fdiv x (Fin 0))"
  by (cases x) (simp_all add: inf_of_sign_def)

text \<open>
  C4 (as amended). When the contributions are computed without error and their total is
  zero, the localization stage raises nothing: it divides by the zero total and writes the
  output file, and no \<^verbatim>\<open>%H2\<close> value in it is finite (each is NaN or an infinity).
\<close>

theorem zero_total_still_written:
  assumes sz: "getitem binsize ''BIN_SIZE'' = Inr sizes"
    and mul: "ndarray_mul_series (taus h) sizes = Inr contrib"
    and zero: "fsum contrib = Fin 0"
  shows "\<exists>d col. compute_polyloc a h binsize fs
        = (Inr (), fs(output_prefix a @ ''.polyloc'' \<mapsto> Csv (polyloc_csv d)))
      \<and> getitem d ''%H2'' = Inr col
      \<and> (\<forall>c\<in>set col. \<exists>x. c = F x \<and> \<not> is_finite x)"
proof -
  define h2 where "h2 = map (\<lambda>x. fdiv x (Fin 0)) contrib"
  define d where "d = setitem (setitem (setitem binsize ''%H2'' (map F contrib))
      ''%H2'' (map F h2)) ''SUM_%H2'' (map F (cumsum h2))"
  have d: "df_polyloc h binsize = Inr d"
    unfolding df_polyloc_def sz sum.case mul zero Let_def d_def h2_def ..
  have g: "getitem d ''%H2'' = Inr (map F h2)"
    unfolding d_def by (simp add: getitem_setitem)
  have nf: "\<forall>c\<in>set (map F h2). \<exists>x. c = F x \<and> \<not> is_finite x"
    unfolding h2_def using fdiv_zero_not_finite by auto
  have "compute_polyloc a h binsize fs
        = (Inr (), fs(output_prefix a @ ''.polyloc'' \<mapsto> Csv (polyloc_csv d)))"
    unfolding compute_polyloc_def d by simp
  with g nf show ?thesis by blast
qed

text \<open>
  C6 (as amended). The stage has no length check of its own. When the number of
  coefficients differs from the number of persisted (integer) bin sizes and is not exactly
  one, the element-wise product raises \<^verbatim>\<open>ValueError\<close> and no file is written. A single
  coefficient is not rejected: it is broadcast over all bins.
\<close>

theorem shape_mismatch_raises:
  assumes sz: "getitem binsize ''BIN_SIZE'' = Inr (map I ss)"
    and ne: "length (taus h) \<noteq> length ss"
    and n1: "length (taus h) \<noteq> 1"
  shows "\<exists>m. compute_polyloc a h binsize fs = (Inl (ValueError m), fs)"
proof -
  have "\<exists>m. ndarray_mul_series (taus h) (map I ss) = Inl (ValueError m)"
    using ne n1 by (simp add: ndarray_mul_series_def those_cell_float_I)
  then obtain m where "ndarray_mul_series (taus h) (map I ss) = Inl (ValueError m)" ..
  then have "df_polyloc h binsize = Inl (ValueError m)"
    unfolding df_polyloc_def sz by simp
  then have "compute_polyloc a h binsize fs = (Inl (ValueError m), fs)"
    unfolding compute_polyloc_def by simp
  then show ?thesis ..
qed

text \<open>
  All coefficients zero: the stage returns normally and the file it writes holds NaN in
  \<^verbatim>\<open>%H2\<close> and \<^verbatim>\<open>SUM_%H2\<close>.
\<close>

theorem zero_total_no_error:
  "fst (compute_polyloc default_args (ex_hsq [0, 0, 0, 0]) ex_binsize Map.empty) = Inr ()
   \<and> snd (compute_polyloc default_args (ex_hsq [0, 0, 0, 0]) ex_binsize Map.empty) ''out.polyloc''
       = Some (Csv \<lparr>sep = [CHR 0x09], float_format = Some ''%0.5f'',
            table = [(''BIN'', [I 1, I 2, I 3]), (''BIN_SIZE'', [I 2, I 1, I 2]),
                     (''%H2'', [F NaN, F NaN, F NaN]),
                     (''SUM_%H2'', [F NaN, F NaN, F NaN])]\<rparr>)"
  by (simp add: compute_polyloc_def polyloc_csv_def default_args_def
      df_polyloc_def getitem_def ex_binsize_def taus_def ex_hsq_def
      ndarray_mul_series_def fsum_def cumsum_def setitem_def colnames_def inf_of_sign_def)

theorem zero_total_still_written_witness:
  "fst (compute_polyloc default_args (ex_hsq [0, 0, 0, 0]) ex_binsize Map.empty) = Inr ()"
proof -
  have sz: "getitem ex_binsize ''BIN_SIZE'' = Inr [I 2, I 1, I 2]"
    by (simp add: getitem_def ex_binsize_def)
  have mul: "ndarray_mul_series (taus (ex_hsq [0, 0, 0, 0])) [I 2, I 1, I 2]
      = Inr [Fin 0, Fin 0, Fin 0]"
    by (simp add: taus_def ex_hsq_def ndarray_mul_series_def)
  have zero: "fsum [Fin 0, Fin 0, Fin 0] = Fin 0"
    by (simp add: fsum_def)
  from zero_total_still_written [OF sz mul zero, of default_args Map.empty]
  show ?thesis by auto
qed

text \<open>
  One coefficient against three persisted bins: no exception, the coefficient is used for
  every bin and the output file is written.
\<close>

theorem single_coefficient_broadcast:
  "length (taus (ex_hsq [1, 0])) = 1 \<and> length [I 2, I 1, I 2] = 3
   \<and> getitem ex_binsize ''BIN_SIZE'' = Inr [I 2, I 1, I 2]
   \<and> fst (compute_polyloc default_args (ex_hsq [1, 0]) ex_binsize Map.empty) = Inr ()
   \<and> snd (compute_polyloc default_args (ex_hsq [1, 0]) ex_binsize Map.empty) ''out.polyloc''
       = Some (Csv \<lparr>sep = [CHR 0x09], float_format = Some ''%0.5f'',
            table = [(''BIN'', [I 1, I 2, I 3]), (''BIN_SIZE'', [I 2, I 1, I 2]),
                     (''%H2'', [F (Fin (2/5)), F (Fin (1/5)), F (Fin (2/5))]),
                     (''SUM_%H2'', [F (Fin (2/5)), F (Fin (3/5)), F (Fin 1)])]\<rparr>)"
  by (simp add: compute_polyloc_def polyloc_csv_def default_args_def
      df_polyloc_def getitem_def ex_binsize_def taus_def ex_hsq_def
      ndarray_mul_series_def fsum_def cumsum_def setitem_def colnames_def)

theorem shape_mismatch_raises_witness:
  "\<exists>m. compute_polyloc default_args (ex_hsq [1, 2, 0]) ex_binsize Map.empty
        = (Inl (ValueError m), Map.empty)"
proof -
  have sz: "getitem ex_binsize ''BIN_SIZE'' = Inr (map I [2, 1, 2])"
    by (simp add: getitem_def ex_binsize_def)
  have ne: "length (taus (ex_hsq [1, 2, 0])) \<noteq> length [2, 1, 2 :: int]"
    by (simp add: taus_def ex_hsq_def)
  have n1: "length (taus (ex_hsq [1, 2, 0])) \<noteq> 1"
    by (simp add: taus_def ex_hsq_def)
  from shape_mismatch_raises [OF sz ne n1] show ?thesis .
qed

section \<open>The partition stage: properties\<close>

lemma concat2_bim_columns:
  assumes "columns a = columns (bim_frame xs)"
  shows "columns (concat2 a (bim_frame ys)) = columns (bim_frame (xs @ ys))"
  using assms by (simp add: concat2_def colnames_def column_or_nan_def bim_frame_def)

lemma foldl_concat2_bim_columns:
  assumes "columns a = columns (bim_frame xs)"
  shows "columns (foldl concat2 a (map bim_frame yss)) = columns (bim_frame (xs @ concat yss))"
  using assms
proof (induction yss arbitrary: a xs)
  case Nil
  then show ?case by simp
next
  case (Cons ys yss)
  have "columns (concat2 a (bim_frame ys)) = columns (bim_frame (xs @ ys))"
    by (rule concat2_bim_columns [OF Cons.prems])
  from Cons.IH [OF this] show ?case by simp
qed

lemma concat_frames_bim:
  "\<exists>d. concat_frames (map (\<lambda>chr_num. bim_frame (read_bim chr_num)) [1..<23]) = Inr d
     \<and> columns d = columns (bim_frame (universe read_bim))"
proof -
  have u: "[1..<23] = 1 # [2..<23]"
    by (simp add: upt_conv_Cons)
  have m: "map (\<lambda>chr_num. bim_frame (read_bim chr_num)) [2..<23] = map bim_frame (map read_bim [2..<23])"
    by simp
  have "columns (foldl concat2 (bim_frame (read_bim 1)) (map bim_frame (map read_bim [2..<23])))
      = columns (bim_frame (read_bim 1 @ concat (map read_bim [2..<23])))"
    by (rule foldl_concat2_bim_columns) simp
  then show ?thesis
    unfolding universe_def u by (simp only: list.map concat_frames.simps m concat.simps) simp
qed

lemma those_add_strings:
  "those (map2 cell_add (map (\<lambda>r. S (f r)) rs) (map (\<lambda>r. S (g r)) rs))
     = Some (map (\<lambda>r. S (f r @ g r)) rs)"
  by (induction rs) simp_all

lemma variant_keys_bim:
  assumes "columns d = columns (bim_frame rows)"
  shows "variant_keys d = Inr (map bim_key rows)"
proof -
  have g: "getitem d ''SNP'' = Inr (map (\<lambda>r. S (bim_SNP r)) rows)"
    "getitem d ''A1'' = Inr (map (\<lambda>r. S (bim_A1 r)) rows)"
    "getitem d ''A2'' = Inr (map (\<lambda>r. S (bim_A2 r)) rows)"
    using assms by (simp_all add: getitem_def bim_frame_def)
  have a1: "series_add (map (\<lambda>r. S (bim_SNP r)) rows) (map (\<lambda>r. S (bim_A1 r)) rows)
      = Inr (map (\<lambda>r. S (bim_SNP r @ bim_A1 r)) rows)"
    unfolding series_add_def those_add_strings by simp
  have a2: "series_add (map (\<lambda>r. S (bim_SNP r @ bim_A1 r)) rows) (map (\<lambda>r. S (bim_A2 r)) rows)
      = Inr (map (\<lambda>r. S ((bim_SNP r @ bim_A1 r) @ bim_A2 r)) rows)"
    unfolding series_add_def those_add_strings by simp
  show ?thesis
    unfolding variant_keys_def g sum.case a1 a2 by (simp add: bim_key_def)
qed

lemma list_ex_not_isin: "list_ex Not (isin xs ys) \<longleftrightarrow> \<not> set xs \<subseteq> set ys"
  by (auto simp: isin_def list_ex_iff)

lemma polyloc_partitions_unfold:
  assumes "variant_keys df_bins0 = Inr ks"
  shows "polyloc_partitions save a read_bim df_bins0 fs =
    (if \<not> set ks \<subseteq> set (map bim_key (universe read_bim)) then
       (Inl (ValueError ''Found variants in posterior file that are not found in the plink files''), fs)
     else
       (case (if length ks < length (universe read_bim)
              then add_residual_bin (keyed_bim (universe read_bim)) (df_bins0\<lparr>index := ks\<rparr>)
              else Inr (df_bins0\<lparr>index := ks\<rparr>)) of
          Inl e \<Rightarrow> (Inl e, fs)
        | Inr df_bins' \<Rightarrow>
            (case df_binsize df_bins' of
               Inl e \<Rightarrow> (Inl e, save a df_bins' fs)
             | Inr d \<Rightarrow>
                 (Inr df_bins',
                  (save a df_bins' fs)(output_prefix a @ ''.binsize'' \<mapsto> Csv (binsize_csv d))))))"
proof -
  obtain d where d: "concat_frames (map (\<lambda>chr_num. bim_frame (read_bim chr_num)) [1..<23]) = Inr d"
    and c: "columns d = columns (bim_frame (universe read_bim))"
    using concat_frames_bim by blast
  have k: "variant_keys d = Inr (map bim_key (universe read_bim))"
    by (rule variant_keys_bim [OF c])
  have e: "d\<lparr>index := map bim_key (universe read_bim)\<rparr> = keyed_bim (universe read_bim)"
    by (simp add: keyed_bim_def c)
  show ?thesis
    unfolding polyloc_partitions_def d sum.case k assms Let_def e
    by (simp add: list_ex_not_isin nrows_def keyed_bim_def)
qed

lemma index_setitem: "index (setitem d n vs) = index d"
  by (simp add: setitem_def)

lemma nrows_setitem: "nrows (setitem d n vs) = nrows d"
  by (simp add: nrows_def index_setitem)

lemma colnames_setitem:
  "colnames (setitem d n vs) = (if n \<in> set (colnames d) then colnames d else colnames d @ [n])"
  by (auto simp: setitem_def colnames_def split: prod.splits)

lemma map_of_setitem:
  "map_of (columns (setitem d n vs)) m = (if m = n then Some vs else map_of (columns d) m)"
proof (cases "n \<in> set (colnames d)")
  case True
  then show ?thesis
    by (simp add: setitem_def colnames_def map_of_replace_other map_of_replace_same)
next
  case False
  then have "map_of (columns d) n = None"
    by (simp add: colnames_def map_of_eq_None_iff)
  with False show ?thesis
    by (simp add: setitem_def map_add_def split: option.splits)
qed

lemma index_fold_setitem:
  "index (fold (\<lambda>colname d'. setitem_scalar d' colname v) names d) = index d"
  by (induction names arbitrary: d) (simp_all add: setitem_scalar_def index_setitem)

lemma nrows_fold_setitem:
  "nrows (fold (\<lambda>colname d'. setitem_scalar d' colname v) names d) = nrows d"
  by (simp add: nrows_def index_fold_setitem)

lemma map_of_fold_setitem:
  "map_of (columns (fold (\<lambda>colname d'. setitem_scalar d' colname v) names d)) n =
     (if n \<in> set names then Some (replicate (nrows d) v) else map_of (columns d) n)"
proof (induction names arbitrary: d)
  case Nil
  then show ?case by simp
next
  case (Cons x xs)
  have "nrows (setitem_scalar d x v) = nrows d"
    by (simp add: setitem_scalar_def nrows_setitem)
  with Cons.IH [of "setitem_scalar d x v"] show ?case
    by (simp add: setitem_scalar_def map_of_setitem)
qed

lemma colnames_fold_setitem:
  assumes "distinct names"
  shows "colnames (fold (\<lambda>colname d'. setitem_scalar d' colname v) names d) =
     colnames d @ filter (\<lambda>n. n \<notin> set (colnames d)) names"
  using assms
proof (induction names arbitrary: d)
  case Nil
  then show ?case by simp
next
  case (Cons x xs)
  from Cons.prems have dx: "distinct xs" and nx: "x \<notin> set xs" by simp_all
  have f: "filter (\<lambda>n. n \<noteq> x \<and> n \<notin> set (colnames d)) xs = filter (\<lambda>n. n \<notin> set (colnames d)) xs"
    using nx by (intro filter_cong) auto
  show ?case
    using Cons.IH [OF dx, of "setitem_scalar d x v"] f
    by (auto simp: setitem_scalar_def colnames_setitem conj_commute)
qed

lemma nth_filter_positions:
  "map (\<lambda>i. xs ! i) (filter (\<lambda>i. xs ! i = l) [0..<length xs]) = filter (\<lambda>k. k = l) xs"
proof -
  have "filter (\<lambda>k. k = l) (map (\<lambda>i. xs ! i) [0..<length xs])
      = map (\<lambda>i. xs ! i) (filter ((\<lambda>k. k = l) \<circ> (\<lambda>i. xs ! i)) [0..<length xs])"
    by (rule filter_map)
  then show ?thesis
    by (simp add: map_nth comp_def)
qed

lemma new_snps_filter:
  "new_snps df_bim df_bins = filter (\<lambda>k. k \<notin> set (index df_bins)) (index df_bim)"
proof -
  have "map fst (filter (\<lambda>(k, m). \<not> m) (zip xs (map (\<lambda>x. x \<in> A) xs))) = filter (\<lambda>k. k \<notin> A) xs"
    for xs :: "cell list" and A
    by (induction xs) simp_all
  then show ?thesis
    by (simp add: new_snps_def isin_def)
qed

lemma loc_keyed_bim:
  assumes "set labels \<subseteq> set (map bim_key rows)"
  shows "\<exists>d. loc (keyed_bim rows) labels SNP_COLUMNS = Inr d
     \<and> index d = concat (map (\<lambda>l. filter (\<lambda>k. k = l) (map bim_key rows)) labels)
     \<and> colnames d = SNP_COLUMNS"
proof -
  have l: "\<not> list_ex (\<lambda>l. l \<notin> set (index (keyed_bim rows))) labels"
    using assms by (auto simp: list_ex_iff keyed_bim_def)
  have n: "\<not> list_ex (\<lambda>n. n \<notin> set (colnames (keyed_bim rows))) SNP_COLUMNS"
    by (simp add: keyed_bim_def colnames_def bim_frame_def SNP_COLUMNS_def)
  have i: "map (\<lambda>i. map bim_key rows ! i)
             (concat (map (\<lambda>l. filter (\<lambda>i. map bim_key rows ! i = l) [0..<length (map bim_key rows)]) labels))
      = concat (map (\<lambda>l. filter (\<lambda>k. k = l) (map bim_key rows)) labels)"
    unfolding map_concat map_map comp_def nth_filter_positions ..
  show ?thesis
    unfolding loc_def if_not_P [OF l] if_not_P [OF n] Let_def
    using i by (simp add: colnames_def comp_def keyed_bim_def nrows_def)
qed

lemma df_bins_new_keyed:
  "\<exists>d. df_bins_new (keyed_bim rows) df_bins = Inr d
     \<and> index d = residual_labels (map bim_key rows) (index df_bins)
     \<and> (\<forall>n\<in>set (colnames df_bins). map_of (columns d) n
           = Some (replicate (length (residual_labels (map bim_key rows) (index df_bins))) (B False)))
     \<and> (distinct (colnames df_bins) \<longrightarrow>
           colnames d = SNP_COLUMNS @ filter (\<lambda>n. n \<notin> set SNP_COLUMNS) (colnames df_bins))"
proof -
  let ?labels = "filter (\<lambda>k. k \<notin> set (index df_bins)) (map bim_key rows)"
  have ns: "new_snps (keyed_bim rows) df_bins = ?labels"
    by (simp add: new_snps_filter keyed_bim_def)
  have "set ?labels \<subseteq> set (map bim_key rows)"
    by auto
  from loc_keyed_bim [OF this] obtain d0 where
    l: "loc (keyed_bim rows) ?labels SNP_COLUMNS = Inr d0"
    and i0: "index d0 = residual_labels (map bim_key rows) (index df_bins)"
    and c0: "colnames d0 = SNP_COLUMNS"
    unfolding residual_labels_def by blast
  let ?d = "fold (\<lambda>colname d'. setitem_scalar d' colname (B False)) (colnames df_bins) d0"
  have d: "df_bins_new (keyed_bim rows) df_bins = Inr ?d"
    unfolding df_bins_new_def ns l by simp
  have i: "index ?d = residual_labels (map bim_key rows) (index df_bins)"
    by (simp add: index_fold_setitem i0)
  have n0: "nrows d0 = length (residual_labels (map bim_key rows) (index df_bins))"
    by (simp add: nrows_def i0)
  have m: "\<forall>n\<in>set (colnames df_bins). map_of (columns ?d) n
      = Some (replicate (length (residual_labels (map bim_key rows) (index df_bins))) (B False))"
    by (simp add: map_of_fold_setitem n0)
  have c: "distinct (colnames df_bins) \<longrightarrow>
      colnames ?d = SNP_COLUMNS @ filter (\<lambda>n. n \<notin> set SNP_COLUMNS) (colnames df_bins)"
    by (simp add: colnames_fold_setitem c0)
  from d i m c show ?thesis by blast
qed

lemma length_filter_fst:
  "length (filter (\<lambda>(n, c). P n) cols) = length (filter P (map fst cols))"
  by (induction cols) auto

lemma map_lookup_distinct:
  assumes "distinct (map fst cols)"
    and "\<And>n c. (n, c) \<in> set cols \<Longrightarrow> h n = g c"
  shows "map (\<lambda>n. (n, h n)) (map fst cols) = map (\<lambda>(n, c). (n, g c)) cols"
  using assms(2) by (induction cols) auto

lemma add_residual_bin_eq:
  assumes dist: "distinct (colnames df_bins)"
    and snp: "set SNP_COLUMNS \<subseteq> set (colnames df_bins)"
    and fresh: "next_bin_free df_bins"
  shows "add_residual_bin (keyed_bim rows) df_bins =
    Inr \<lparr>index = index df_bins @ residual_labels (map bim_key rows) (index df_bins),
         columns =
           map (\<lambda>(n, c). (n, c @ replicate (length (residual_labels (map bim_key rows) (index df_bins))) (B False)))
               (columns df_bins)
           @ [(bin_colname (int (length (bin_columns df_bins)) + 1),
               replicate (nrows df_bins) (B False)
               @ replicate (length (residual_labels (map bim_key rows) (index df_bins))) (B True))]\<rparr>"
proof -
  define R where "R = residual_labels (map bim_key rows) (index df_bins)"
  define new where "new = bin_colname (int (length (bin_columns df_bins)) + 1)"
  from df_bins_new_keyed [of rows df_bins] dist obtain d where
    d: "df_bins_new (keyed_bim rows) df_bins = Inr d"
    and id: "index d = R"
    and md: "\<forall>n\<in>set (colnames df_bins). map_of (columns d) n = Some (replicate (length R) (B False))"
    and cd: "colnames d = SNP_COLUMNS @ filter (\<lambda>n. n \<notin> set SNP_COLUMNS) (colnames df_bins)"
    unfolding R_def by blast
  have nd: "nrows d = length R"
    by (simp add: nrows_def id)
  have nf: "new \<notin> set (colnames df_bins)"
    using fresh by (simp add: next_bin_free_def new_def)
  have "ncols d = length (colnames d)"
    by (simp add: ncols_def colnames_def)
  also have "\<dots> = length SNP_COLUMNS + length (filter (\<lambda>n. n \<notin> set SNP_COLUMNS) (colnames df_bins))"
    unfolding cd by simp
  also have "length (filter (\<lambda>n. n \<notin> set SNP_COLUMNS) (colnames df_bins)) = length (bin_columns df_bins)"
    unfolding bin_columns_def colnames_def by (rule length_filter_fst [symmetric])
  finally have nm: "bin_colname (int (ncols d) - int (length SNP_COLUMNS) + 1) = new"
    by (simp add: new_def)
  let ?first = "setitem_scalar df_bins new (B False)"
  let ?second = "setitem_scalar d new (B True)"
  have cf: "columns ?first = columns df_bins @ [(new, replicate (nrows df_bins) (B False))]"
    using nf by (simp add: setitem_scalar_def setitem_def)
  have nmf: "colnames ?first = colnames df_bins @ [new]"
    using nf by (simp add: setitem_scalar_def colnames_setitem)
  have "set (colnames ?second) \<subseteq> set (colnames d) \<union> {new}"
    by (auto simp: setitem_scalar_def colnames_setitem)
  also have "\<dots> \<subseteq> set (colnames ?first)"
    using snp unfolding cd nmf by auto
  finally have fl: "filter (\<lambda>n. n \<notin> set (colnames ?first)) (colnames ?second) = []"
    by (auto simp: filter_empty_conv)
  have ms: "map_of (columns ?second) n = (if n = new then Some (replicate (length R) (B True))
      else map_of (columns d) n)" for n
    by (simp add: setitem_scalar_def map_of_setitem nd)
  have old: "column_or_nan ?first n @ column_or_nan ?second n = c @ replicate (length R) (B False)"
    if "(n, c) \<in> set (columns df_bins)" for n c
  proof -
    from that have nin: "n \<in> set (colnames df_bins)"
      by (force simp: colnames_def)
    with nf have ne: "n \<noteq> new" by auto
    from that dist have "map_of (columns df_bins) n = Some c"
      by (simp add: colnames_def)
    then have "column_or_nan ?first n = c"
      by (simp add: column_or_nan_def cf map_add_def)
    moreover have "column_or_nan ?second n = replicate (length R) (B False)"
      using md nin ne by (simp add: column_or_nan_def ms)
    ultimately show ?thesis by simp
  qed
  have o: "map (\<lambda>n. (n, column_or_nan ?first n @ column_or_nan ?second n)) (colnames df_bins)
      = map (\<lambda>(n, c). (n, c @ replicate (length R) (B False))) (columns df_bins)"
    unfolding colnames_def using dist old by (intro map_lookup_distinct) (simp_all add: colnames_def)
  have "map_of (columns df_bins) new = None"
    using nf by (simp add: colnames_def map_of_eq_None_iff)
  then have n1: "column_or_nan ?first new = replicate (nrows df_bins) (B False)"
    by (simp add: column_or_nan_def cf map_add_def)
  have n2: "column_or_nan ?second new = replicate (length R) (B True)"
    by (simp add: column_or_nan_def ms)
  have i1: "index ?first = index df_bins"
    by (simp add: setitem_scalar_def index_setitem)
  have i2: "index ?second = R"
    by (simp add: setitem_scalar_def index_setitem id)
  have cc: "concat2 ?first ?second =
    \<lparr>index = index ?first @ index ?second,
     columns = map (\<lambda>n. (n, column_or_nan ?first n @ column_or_nan ?second n))
       (colnames ?first @ filter (\<lambda>n. n \<notin> set (colnames ?first)) (colnames ?second))\<rparr>"
    by (simp add: concat2_def Let_def)
  have "concat2 ?first ?second =
    \<lparr>index = index df_bins @ R,
     columns = map (\<lambda>(n, c). (n, c @ replicate (length R) (B False))) (columns df_bins)
       @ [(new, replicate (nrows df_bins) (B False) @ replicate (length R) (B True))]\<rparr>"
    unfolding cc fl append_Nil2
    by (simp only: nmf map_append o list.map n1 n2 i1 i2)
  then show ?thesis
    unfolding add_residual_bin_def d sum.case Let_def nm
    by (simp add: R_def new_def)
qed

lemma add_residual_bin_with_residual:
  assumes "distinct (colnames df_bins)" and "set SNP_COLUMNS \<subseteq> set (colnames df_bins)"
    and "next_bin_free df_bins"
  shows "add_residual_bin (keyed_bim rows) df_bins
    = Inr (with_residual df_bins (residual_labels (map bim_key rows) (index df_bins)))"
  unfolding with_residual_def by (rule add_residual_bin_eq [OF assms])

lemma those_length: "those xs = Some ys \<Longrightarrow> length ys = length xs"
  by (induction xs arbitrary: ys) (auto split: option.splits)

lemma series_add_length:
  "series_add xs ys = Inr zs \<Longrightarrow> length zs = min (length xs) (length ys)"
  by (auto simp: series_add_def split: option.splits dest: those_length)

lemma getitem_in_columns: "getitem df n = Inr c \<Longrightarrow> (n, c) \<in> set (columns df)"
  by (auto simp: getitem_def split: option.splits dest: map_of_SomeD)

lemma variant_keys_length:
  assumes "variant_keys df = Inr ks"
    and "list_all (\<lambda>(n, c). length c = nrows df) (columns df)"
  shows "length ks = nrows df"
proof -
  from assms(1) obtain snp a1 k a2 where
    g1: "getitem df ''SNP'' = Inr snp" and g2: "getitem df ''A1'' = Inr a1"
    and s1: "series_add snp a1 = Inr k" and g3: "getitem df ''A2'' = Inr a2"
    and s2: "series_add k a2 = Inr ks"
    by (auto simp: variant_keys_def split: sum.splits)
  have len: "length c = nrows df" if "getitem df n = Inr c" for n c
    using getitem_in_columns [OF that] assms(2) by (auto simp: list_all_iff)
  from series_add_length [OF s1] len [OF g1] len [OF g2] have "length k = nrows df" by simp
  with series_add_length [OF s2] len [OF g3] show ?thesis by simp
qed

lemma drop_columns_snp:
  assumes "set SNP_COLUMNS \<subseteq> set (colnames df)"
  shows "drop_columns df SNP_COLUMNS = Inr (df\<lparr>columns := bin_columns df\<rparr>)"
proof -
  have "\<not> list_ex (\<lambda>n. n \<notin> set (colnames df)) SNP_COLUMNS"
    using assms by (auto simp: list_ex_iff)
  then show ?thesis
    by (simp add: drop_columns_def bin_columns_def)
qed

lemma those_cell_int_bool:
  "list_all is_bool c \<Longrightarrow>
   those (map cell_int c) = Some (map (\<lambda>x. if x = B True then 1 else 0) c)"
proof (induction c)
  case Nil
  then show ?case by simp
next
  case (Cons x c)
  then show ?case by (cases x) auto
qed

lemma sum_list_indicator:
  "sum_list (map (\<lambda>x. if P x then 1 else 0) xs) = int (length (filter P xs))"
  by (induction xs) simp_all

lemma column_sum_bool:
  "list_all is_bool c \<Longrightarrow> column_sum c = Inr (count_cell c)"
  by (simp add: column_sum_def count_cell_def those_cell_int_bool sum_list_indicator count_true_def)

lemma sum_columns_bool:
  "list_all (\<lambda>(n, c). list_all is_bool c) cols \<Longrightarrow>
   sum_columns cols = Inr (map (\<lambda>(n, c). count_cell c) cols)"
  by (induction cols) (auto simp: column_sum_bool)

lemma length_bin_columns:
  assumes "distinct (colnames df)" and "set SNP_COLUMNS \<subseteq> set (colnames df)"
  shows "int (ncols df) - int (length SNP_COLUMNS) = int (length (bin_columns df))"
proof -
  have d5: "distinct SNP_COLUMNS"
    by (simp add: SNP_COLUMNS_def)
  have "length (filter (\<lambda>n. n \<in> set SNP_COLUMNS) (colnames df))
      = card ({n. n \<in> set SNP_COLUMNS} \<inter> set (colnames df))"
    by (rule distinct_length_filter [OF assms(1)])
  also have "{n. n \<in> set SNP_COLUMNS} \<inter> set (colnames df) = set SNP_COLUMNS"
    using assms(2) by auto
  also have "card (set SNP_COLUMNS) = length SNP_COLUMNS"
    by (rule distinct_card [OF d5])
  finally have a: "length (filter (\<lambda>n. n \<in> set SNP_COLUMNS) (colnames df)) = length SNP_COLUMNS" .
  have b: "length (bin_columns df) = length (filter (\<lambda>n. n \<notin> set SNP_COLUMNS) (colnames df))"
    unfolding bin_columns_def colnames_def by (rule length_filter_fst)
  have "length (colnames df) = length (filter (\<lambda>n. n \<in> set SNP_COLUMNS) (colnames df))
      + length (filter (\<lambda>n. n \<notin> set SNP_COLUMNS) (colnames df))"
    by (rule sum_length_filter_compl [symmetric])
  with a b have "ncols df = length SNP_COLUMNS + length (bin_columns df)"
    by (simp add: ncols_def colnames_def)
  then show ?thesis by simp
qed

lemma df_binsize_wf:
  assumes "wf_matrix df"
  shows "df_binsize df =
    Inr \<lparr>index = map I [1 .. int (length (bin_columns df))],
         columns = [(''BIN_SIZE'', map (\<lambda>(n, c). count_cell c) (bin_columns df))]\<rparr>"
proof -
  from assms have dist: "distinct (colnames df)" and snp: "set SNP_COLUMNS \<subseteq> set (colnames df)"
    and bools: "list_all (\<lambda>(n, c). list_all is_bool c) (bin_columns df)"
    by (simp_all add: wf_matrix_def)
  have dr: "drop_columns df SNP_COLUMNS = Inr (df\<lparr>columns := bin_columns df\<rparr>)"
    by (rule drop_columns_snp [OF snp])
  have su: "sum_columns (bin_columns df) = Inr (map (\<lambda>(n, c). count_cell c) (bin_columns df))"
    by (rule sum_columns_bool [OF bools])
  have le: "int (ncols df) - int (length SNP_COLUMNS) = int (length (bin_columns df))"
    by (rule length_bin_columns [OF dist snp])
  show ?thesis
    unfolding df_binsize_def le Let_def dr sum.case using su by simp
qed

lemma with_residual_simps:
  "index (with_residual df R) = index df @ R"
  "nrows (with_residual df R) = nrows df + length R"
  "colnames (with_residual df R)
     = colnames df @ [bin_colname (int (length (bin_columns df)) + 1)]"
  by (auto simp: with_residual_def nrows_def colnames_def split: prod.splits)

lemma next_bin_not_identity:
  assumes "set SNP_COLUMNS \<subseteq> set (colnames df)" and "next_bin_free df"
  shows "bin_colname (int (length (bin_columns df)) + 1) \<notin> set SNP_COLUMNS"
  using assms unfolding next_bin_free_def by blast

lemma filter_map_fst:
  "filter (\<lambda>(n, c). P n) (map (\<lambda>(n, c). (n, g c)) cols)
     = map (\<lambda>(n, c). (n, g c)) (filter (\<lambda>(n, c). P n) cols)"
  by (induction cols) auto

lemma bin_columns_with_residual:
  assumes "set SNP_COLUMNS \<subseteq> set (colnames df)" and "next_bin_free df"
  shows "bin_columns (with_residual df R) =
    map (\<lambda>(n, c). (n, c @ replicate (length R) (B False))) (bin_columns df)
    @ [(bin_colname (int (length (bin_columns df)) + 1),
        replicate (nrows df) (B False) @ replicate (length R) (B True))]"
  using next_bin_not_identity [OF assms]
  unfolding bin_columns_def with_residual_def
  by (simp add: filter_map_fst)

lemma wf_matrix_with_residual:
  assumes wf: "wf_matrix df" and fresh: "next_bin_free df"
  shows "wf_matrix (with_residual df R)"
proof -
  from wf have dist: "distinct (colnames df)" and snp: "set SNP_COLUMNS \<subseteq> set (colnames df)"
    and len: "list_all (\<lambda>(n, c). length c = nrows df) (columns df)"
    and bools: "list_all (\<lambda>(n, c). list_all is_bool c) (bin_columns df)"
    by (simp_all add: wf_matrix_def)
  have d: "distinct (colnames (with_residual df R))"
    using dist fresh by (simp add: with_residual_simps next_bin_free_def)
  have s: "set SNP_COLUMNS \<subseteq> set (colnames (with_residual df R))"
    using snp by (auto simp: with_residual_simps)
  have l: "list_all (\<lambda>(n, c). length c = nrows (with_residual df R)) (columns (with_residual df R))"
    using len unfolding with_residual_simps
    by (auto simp: with_residual_def list_all_iff)
  have b: "list_all (\<lambda>(n, c). list_all is_bool c) (bin_columns (with_residual df R))"
    using bools unfolding bin_columns_with_residual [OF snp fresh]
    by (fastforce simp: list_all_iff)
  from d s l b show ?thesis
    unfolding wf_matrix_def by blast
qed

lemma length_filter_map:
  "length (filter P (map f xs)) = length (filter (\<lambda>x. P (f x)) xs)"
  by (induction xs) simp_all

lemma row_trues_with_residual:
  assumes wf: "wf_matrix df" and fresh: "next_bin_free df" and i: "i < nrows df + length R"
  shows "row_trues (with_residual df R) i = (if i < nrows df then row_trues df i else 1)"
proof -
  from wf have snp: "set SNP_COLUMNS \<subseteq> set (colnames df)"
    and len: "list_all (\<lambda>(n, c). length c = nrows df) (columns df)"
    by (simp_all add: wf_matrix_def)
  have blen: "length c = nrows df" if "(n, c) \<in> set (bin_columns df)" for n c
    using that len by (auto simp: bin_columns_def list_all_iff)
  show ?thesis
  proof (cases "i < nrows df")
    case True
    have "filter (\<lambda>x. (case x of (n, c) \<Rightarrow> (n, c @ replicate (length R) (B False))) \<in> {(n, c). c ! i = B True}) (bin_columns df)
        = filter (\<lambda>(n, c). c ! i = B True) (bin_columns df)"
      using True blen by (intro filter_cong) (auto simp: nth_append)
    then have "length (filter (\<lambda>(n, c). c ! i = B True)
        (map (\<lambda>(n, c). (n, c @ replicate (length R) (B False))) (bin_columns df)))
        = row_trues df i"
      unfolding row_trues_def length_filter_map by (simp add: case_prod_beta)
    with True show ?thesis
      unfolding row_trues_def [of "with_residual df R"] bin_columns_with_residual [OF snp fresh]
      by (simp add: nth_append)
  next
    case False
    have "filter (\<lambda>x. (case x of (n, c) \<Rightarrow> (n, c @ replicate (length R) (B False))) \<in> {(n, c). c ! i = B True}) (bin_columns df)
        = []"
      using False i blen by (auto simp: filter_empty_conv nth_append)
    then have "length (filter (\<lambda>(n, c). c ! i = B True)
        (map (\<lambda>(n, c). (n, c @ replicate (length R) (B False))) (bin_columns df))) = 0"
      unfolding length_filter_map by (simp add: case_prod_beta)
    with False i show ?thesis
      unfolding row_trues_def [of "with_residual df R"] bin_columns_with_residual [OF snp fresh]
      by (simp add: nth_append)
  qed
qed

lemma one_hot_with_residual:
  assumes "wf_matrix df" and "next_bin_free df" and "one_hot df"
  shows "one_hot (with_residual df R)"
  using assms(3) row_trues_with_residual [OF assms(1,2)]
  by (auto simp: one_hot_def list_all_iff with_residual_simps)

lemma wf_matrix_reindex:
  assumes "wf_matrix df" and "length ks = nrows df"
  shows "wf_matrix (df\<lparr>index := ks\<rparr>)"
  using assms by (simp add: wf_matrix_def colnames_def nrows_def bin_columns_def)

lemma next_bin_free_reindex: "next_bin_free (df\<lparr>index := ks\<rparr>) = next_bin_free df"
  by (simp add: next_bin_free_def colnames_def bin_columns_def)

lemma one_hot_reindex:
  assumes "one_hot df" and "length ks = nrows df"
  shows "one_hot (df\<lparr>index := ks\<rparr>)"
  using assms by (simp add: one_hot_def row_trues_def nrows_def bin_columns_def)

lemma polyloc_partitions_result:
  assumes wf: "wf_matrix df_bins0" and fresh: "next_bin_free df_bins0"
    and keys: "variant_keys df_bins0 = Inr ks"
    and sub: "set ks \<subseteq> set (map bim_key (universe read_bim))"
  shows "fst (polyloc_partitions save a read_bim df_bins0 fs) =
    Inr (if length ks < length (universe read_bim)
         then with_residual (df_bins0\<lparr>index := ks\<rparr>)
                (residual_labels (map bim_key (universe read_bim)) ks)
         else df_bins0\<lparr>index := ks\<rparr>)"
proof -
  let ?df = "df_bins0\<lparr>index := ks\<rparr>"
  let ?R = "residual_labels (map bim_key (universe read_bim)) ks"
  from wf have len: "list_all (\<lambda>(n, c). length c = nrows df_bins0) (columns df_bins0)"
    by (simp add: wf_matrix_def)
  have lk: "length ks = nrows df_bins0"
    by (rule variant_keys_length [OF keys len])
  have wf': "wf_matrix ?df"
    by (rule wf_matrix_reindex [OF wf lk])
  have fresh': "next_bin_free ?df"
    using fresh by (simp add: next_bin_free_reindex)
  from wf' have dist: "distinct (colnames ?df)" and snp: "set SNP_COLUMNS \<subseteq> set (colnames ?df)"
    by (simp_all add: wf_matrix_def)
  have ar: "add_residual_bin (keyed_bim (universe read_bim)) ?df = Inr (with_residual ?df ?R)"
    using add_residual_bin_with_residual [OF dist snp fresh', of "universe read_bim"] by simp
  have b1: "\<exists>d. df_binsize (with_residual ?df ?R) = Inr d"
    using df_binsize_wf [OF wf_matrix_with_residual [OF wf' fresh', of ?R]] by blast
  have b2: "\<exists>d. df_binsize ?df = Inr d"
    using df_binsize_wf [OF wf'] by blast
  have nsub: "\<not> \<not> set ks \<subseteq> set (map bim_key (universe read_bim))"
    using sub by simp
  show ?thesis
  proof (cases "length ks < length (universe read_bim)")
    case True
    from b1 obtain d where "df_binsize (with_residual ?df ?R) = Inr d" ..
    then show ?thesis
      unfolding polyloc_partitions_unfold [OF keys] if_not_P [OF nsub] if_P [OF True] ar
      by simp
  next
    case False
    from b2 obtain d where "df_binsize ?df = Inr d" ..
    then show ?thesis
      unfolding polyloc_partitions_unfold [OF keys] if_not_P [OF nsub] if_not_P [OF False]
      by simp
  qed
qed

lemma set_residual_labels: "set (residual_labels xs ys) = set xs - set ys"
  by (auto simp: residual_labels_def)

lemma filter_eq_singleton:
  "distinct xs \<Longrightarrow> l \<in> set xs \<Longrightarrow> filter (\<lambda>k. k = l) xs = [l]"
  by (induction xs) (auto simp: filter_empty_conv)

lemma concat_singletons: "concat (map (\<lambda>l. [l]) ls) = ls"
  by (induction ls) simp_all

lemma residual_labels_distinct:
  assumes "distinct xs"
  shows "residual_labels xs ys = filter (\<lambda>k. k \<notin> set ys) xs"
proof -
  have h: "map (\<lambda>l. filter (\<lambda>k. k = l) xs) (filter (\<lambda>k. k \<notin> set ys) xs)
      = map (\<lambda>l. [l]) (filter (\<lambda>k. k \<notin> set ys) xs)"
    using assms by (intro map_cong) (auto simp: filter_eq_singleton)
  show ?thesis
    unfolding residual_labels_def h by (rule concat_singletons)
qed

text \<open>
  The condition \<open>next_bin_free\<close> holds for every matrix whose columns are the identity
  columns followed by bin columns numbered from 1, the numbering that the new column
  continues.
\<close>

lemma decimal_digits_rec:
  "\<not> n < 10 \<Longrightarrow> decimal_digits n = decimal_digits (n div 10) @ [n mod 10]"
  "n < 10 \<Longrightarrow> decimal_digits n = [n]"
  using decimal_digits.simps [of n] by simp_all

lemma decimal_digits_small: "d \<in> set (decimal_digits n) \<Longrightarrow> d < 10"
proof (induction n rule: decimal_digits.induct)
  case (1 n)
  show ?case
  proof (cases "n < 10")
    case True
    with "1.prems" show ?thesis
      by (simp add: decimal_digits_rec)
  next
    case False
    with "1.prems" have "d \<in> set (decimal_digits (n div 10)) \<or> d = n mod 10"
      by (auto simp: decimal_digits_rec)
    then show ?thesis
    proof
      assume "d \<in> set (decimal_digits (n div 10))"
      with "1.IH" [OF False] show ?thesis .
    next
      assume "d = n mod 10"
      then show ?thesis by simp
    qed
  qed
qed

lemma decimal_digits_value: "foldl (\<lambda>a d. a * 10 + d) 0 (decimal_digits n) = n"
proof (induction n rule: decimal_digits.induct)
  case (1 n)
  show ?case
  proof (cases "n < 10")
    case True
    then show ?thesis
      by (simp add: decimal_digits_rec)
  next
    case False
    have "foldl (\<lambda>a d. a * 10 + d) 0 (decimal_digits n)
        = foldl (\<lambda>a d. a * 10 + d) 0 (decimal_digits (n div 10)) * 10 + n mod 10"
      unfolding decimal_digits_rec(1) [OF False] by simp
    also have "\<dots> = (n div 10) * 10 + n mod 10"
      unfolding "1.IH" [OF False] ..
    also have "\<dots> = n"
      by (rule div_mult_mod_eq)
    finally show ?thesis .
  qed
qed

lemma decimal_digits_inject: "decimal_digits m = decimal_digits n \<Longrightarrow> m = n"
  by (metis decimal_digits_value)

lemma digit_char_inject:
  assumes "a < 10" and "b < 10" and "digit_char a = digit_char b"
  shows "a = b"
proof -
  have oa: "(of_char (digit_char a) :: nat) = (a + 48) mod 256"
    unfolding digit_char_def by (rule of_char_of)
  have ob: "(of_char (digit_char b) :: nat) = (b + 48) mod 256"
    unfolding digit_char_def by (rule of_char_of)
  from assms(3) have "(a + 48) mod 256 = (b + 48) mod 256"
    unfolding oa [symmetric] ob [symmetric] by (rule arg_cong)
  moreover have "(a + 48) mod 256 = a + 48" "(b + 48) mod 256 = b + 48"
    using assms(1,2) by (simp_all only: mod_less) 
  ultimately show ?thesis by linarith
qed

lemma map_digit_char_inject:
  assumes "\<forall>d\<in>set xs. d < 10" and "\<forall>d\<in>set ys. d < 10"
    and "map digit_char xs = map digit_char ys"
  shows "xs = ys"
  using assms
proof (induction xs arbitrary: ys)
  case Nil
  then show ?case by simp
next
  case (Cons x xs)
  then obtain y ys' where ys: "ys = y # ys'" by (cases ys) auto
  with Cons.prems have "digit_char x = digit_char y" "map digit_char xs = map digit_char ys'"
    "x < 10" "y < 10" by simp_all
  moreover from this have "x = y" by (intro digit_char_inject)
  moreover have "xs = ys'"
    using Cons.IH [of ys'] Cons.prems ys by simp
  ultimately show ?case using ys by simp
qed

lemma bin_colname_inject:
  assumes "0 \<le> i" and "0 \<le> j" and "bin_colname i = bin_colname j"
  shows "i = j"
proof -
  from assms have "map digit_char (decimal_digits (nat i)) = map digit_char (decimal_digits (nat j))"
    by (simp add: bin_colname_def format_d_def)
  then have "decimal_digits (nat i) = decimal_digits (nat j)"
    using decimal_digits_small by (intro map_digit_char_inject) auto
  then have "nat i = nat j"
    by (rule decimal_digits_inject)
  with assms(1,2) show ?thesis by simp
qed

lemma bin_colname_not_identity: "bin_colname i \<notin> set SNP_COLUMNS"
  by (simp add: bin_colname_def SNP_COLUMNS_def)

lemma numbered_bins_next_free:
  assumes "colnames df = SNP_COLUMNS @ map (\<lambda>i. bin_colname (int i)) [1..<Suc K]"
  shows "next_bin_free df"
proof -
  have "filter (\<lambda>n. n \<notin> set SNP_COLUMNS) (colnames df) = map (\<lambda>i. bin_colname (int i)) [1..<Suc K]"
    unfolding assms using bin_colname_not_identity by (simp add: filter_empty_conv)
  then have k: "length (bin_columns df) = K"
    unfolding bin_columns_def length_filter_fst colnames_def by simp
  have "bin_colname (int K + 1) \<notin> set (map (\<lambda>i. bin_colname (int i)) [1..<Suc K])"
  proof
    assume "bin_colname (int K + 1) \<in> set (map (\<lambda>i. bin_colname (int i)) [1..<Suc K])"
    then have "\<exists>i\<in>set [1..<Suc K]. bin_colname (int K + 1) = bin_colname (int i)"
      by (simp only: set_map image_iff)
    then obtain i where m: "i \<in> set [1..<Suc K]"
      and e: "bin_colname (int K + 1) = bin_colname (int i)"
      by blast
    from m have i: "i < Suc K" by (simp only: set_upt atLeastLessThan_iff)
    from bin_colname_inject [OF _ _ e] have "int K + 1 = int i" by simp
    with i show False by simp
  qed
  then show ?thesis
    unfolding next_bin_free_def k assms using bin_colname_not_identity by simp
qed

text \<open>
  C3. When the posterior matrix has a key that is not a key of the universe,
  \<^verbatim>\<open>polyloc_partitions\<close> raises the \<^verbatim>\<open>ValueError\<close> of its integrity check (the
  specification's DataIntegrityError) and the file system is returned as it was: neither
  the bin-assignment file nor the bin-size file is written.
\<close>

theorem posterior_variant_missing_rejected:
  assumes "variant_keys df_bins0 = Inr ks"
    and "\<not> set ks \<subseteq> set (map bim_key (universe read_bim))"
  shows "polyloc_partitions save a read_bim df_bins0 fs =
    (Inl (ValueError ''Found variants in posterior file that are not found in the plink files''), fs)"
  unfolding polyloc_partitions_unfold [OF assms(1)] using assms(2) by (rule if_P)

text \<open>
  C5 (as amended). Repeated keys are not detected. For a well-formed posterior matrix whose
  keys all occur in the universe, \<^verbatim>\<open>polyloc_partitions\<close> completes without an exception,
  whether or not a key is repeated in the posterior matrix or in the universe.
\<close>

theorem duplicate_keys_not_rejected:
  assumes "wf_matrix df_bins0" and "next_bin_free df_bins0"
    and "variant_keys df_bins0 = Inr ks"
    and "set ks \<subseteq> set (map bim_key (universe read_bim))"
  shows "\<exists>out. fst (polyloc_partitions save a read_bim df_bins0 fs) = Inr out"
  using polyloc_partitions_result [OF assms] by blast

text \<open>
  Where the posterior matrix repeats no key, the partition is complete: for a one-hot
  posterior matrix whose keys are distinct and all occur in the universe, the matrix that
  \<^verbatim>\<open>polyloc_partitions\<close> produces has exactly one true bin value in every row, and the
  keys of its rows are exactly the keys of the universe.
\<close>

theorem bin_partition_complete:
  assumes wf: "wf_matrix df_bins0" and fresh: "next_bin_free df_bins0"
    and oh: "one_hot df_bins0"
    and keys: "variant_keys df_bins0 = Inr ks"
    and dk: "distinct ks"
    and sub: "set ks \<subseteq> set (map bim_key (universe read_bim))"
  shows "\<exists>out. fst (polyloc_partitions save a read_bim df_bins0 fs) = Inr out
      \<and> one_hot out
      \<and> set (index out) = set (map bim_key (universe read_bim))"
proof -
  let ?df = "df_bins0\<lparr>index := ks\<rparr>"
  let ?U = "map bim_key (universe read_bim)"
  from wf have len: "list_all (\<lambda>(n, c). length c = nrows df_bins0) (columns df_bins0)"
    by (simp add: wf_matrix_def)
  have lk: "length ks = nrows df_bins0"
    by (rule variant_keys_length [OF keys len])
  have wf': "wf_matrix ?df"
    by (rule wf_matrix_reindex [OF wf lk])
  have fresh': "next_bin_free ?df"
    using fresh by (simp add: next_bin_free_reindex)
  have oh': "one_hot ?df"
    by (rule one_hot_reindex [OF oh lk])
  note res = polyloc_partitions_result [OF wf fresh keys sub, of save a fs]
  show ?thesis
  proof (cases "length ks < length (universe read_bim)")
    case True
    have "set (index (with_residual ?df (residual_labels ?U ks))) = set ?U"
      using sub by (auto simp: with_residual_simps set_residual_labels)
    moreover have "one_hot (with_residual ?df (residual_labels ?U ks))"
      by (rule one_hot_with_residual [OF wf' fresh' oh'])
    ultimately show ?thesis
      using res True by simp
  next
    case False
    have "card (set ?U) \<le> length ?U"
      by (rule card_length)
    also have "\<dots> \<le> length ks"
      using False by simp
    also have "\<dots> = card (set ks)"
      using dk by (simp add: distinct_card)
    finally have "card (set ?U) \<le> card (set ks)" .
    with sub have "set ks = set ?U"
      by (intro card_seteq) simp_all
    with oh' show ?thesis
      using res False by simp
  qed
qed

text \<open>
  Where neither the universe nor the posterior matrix repeats a key, the posterior keys
  among those of the universe: if some variant of the universe is not in the posterior
  matrix, the result is the posterior matrix extended by one row for each such variant,
  with \<^verbatim>\<open>False\<close> in the existing columns, and by a last column numbered one more than
  the existing bins, \<^verbatim>\<open>False\<close> in the existing rows and \<^verbatim>\<open>True\<close> in the new ones; the
  number of new rows is the number of such variants. If the keys coincide, the posterior
  matrix is returned with no column added.
\<close>

theorem residual_bin_construction:
  assumes wf: "wf_matrix df_bins0" and fresh: "next_bin_free df_bins0"
    and keys: "variant_keys df_bins0 = Inr ks"
    and dk: "distinct ks"
    and du: "distinct (map bim_key (universe read_bim))"
    and sub: "set ks \<subseteq> set (map bim_key (universe read_bim))"
  shows "(set (map bim_key (universe read_bim)) - set ks \<noteq> {} \<longrightarrow>
            fst (polyloc_partitions save a read_bim df_bins0 fs)
              = Inr (with_residual (df_bins0\<lparr>index := ks\<rparr>)
                       (filter (\<lambda>k. k \<notin> set ks) (map bim_key (universe read_bim))))
            \<and> length (filter (\<lambda>k. k \<notin> set ks) (map bim_key (universe read_bim)))
                = card (set (map bim_key (universe read_bim)) - set ks))
       \<and> (set (map bim_key (universe read_bim)) = set ks \<longrightarrow>
            fst (polyloc_partitions save a read_bim df_bins0 fs) = Inr (df_bins0\<lparr>index := ks\<rparr>))"
proof (intro conjI impI)
  let ?U = "map bim_key (universe read_bim)"
  note res = polyloc_partitions_result [OF wf fresh keys sub, of save a fs]
  have lu: "length (universe read_bim) = card (set ?U)"
    using distinct_card [OF du] by simp
  have lk: "length ks = card (set ks)"
    using distinct_card [OF dk] by simp
  {
    assume ne: "set ?U - set ks \<noteq> {}"
    with sub have "set ks \<subset> set ?U" by blast
    then have "card (set ks) < card (set ?U)"
      by (intro psubset_card_mono) simp_all
    then have lt: "length ks < length (universe read_bim)"
      using lu lk by simp
    show "fst (polyloc_partitions save a read_bim df_bins0 fs)
        = Inr (with_residual (df_bins0\<lparr>index := ks\<rparr>) (filter (\<lambda>k. k \<notin> set ks) ?U))"
      using res lt residual_labels_distinct [OF du, of ks] by simp
    have "length (filter (\<lambda>k. k \<notin> set ks) ?U) = card ({k. k \<notin> set ks} \<inter> set ?U)"
      by (rule distinct_length_filter [OF du])
    also have "{k. k \<notin> set ks} \<inter> set ?U = set ?U - set ks"
      by blast
    finally show "length (filter (\<lambda>k. k \<notin> set ks) ?U) = card (set ?U - set ks)" .
  }
  {
    assume "set ?U = set ks"
    then have "\<not> length ks < length (universe read_bim)"
      using lu lk by simp
    then show "fst (polyloc_partitions save a read_bim df_bins0 fs) = Inr (df_bins0\<lparr>index := ks\<rparr>)"
      using res by simp
  }
qed

lemma map_of_map_values:
  "map_of (map (\<lambda>(n, c). (n, g c)) cols) n = map_option g (map_of cols n)"
  by (induction cols) auto

lemma getitem_with_residual:
  assumes "getitem df n = Inr c"
  shows "getitem (with_residual df R) n = Inr (c @ replicate (length R) (B False))"
proof -
  from assms have m: "map_of (columns df) n = Some c"
    by (auto simp: getitem_def split: option.splits)
  have "map_of (map (\<lambda>(n, c). (n, c @ replicate (length R) (B False))) (columns df)) n
      = Some (c @ replicate (length R) (B False))"
    using m by (simp add: map_of_map_values)
  then show ?thesis
    by (simp add: getitem_def with_residual_def map_add_def)
qed

text \<open>
  C10. When rows are synthesised, the loop over the columns of the posterior matrix also
  covers the identity columns: before concatenation every identity column of the new rows
  holds \<^verbatim>\<open>False\<close>, and in the assembled matrix the identity columns continue with
  \<^verbatim>\<open>False\<close> below the posterior rows, so the variant is recorded only in the index.
\<close>

theorem residual_rows_lose_identity:
  assumes wf: "wf_matrix df_bins0" and fresh: "next_bin_free df_bins0"
    and keys: "variant_keys df_bins0 = Inr ks"
    and sub: "set ks \<subseteq> set (map bim_key (universe read_bim))"
    and lt: "length ks < length (universe read_bim)"
  shows "\<exists>d out. df_bins_new (keyed_bim (universe read_bim)) (df_bins0\<lparr>index := ks\<rparr>) = Inr d
      \<and> index d = residual_labels (map bim_key (universe read_bim)) ks
      \<and> (\<forall>n\<in>set SNP_COLUMNS. getitem d n = Inr (replicate (nrows d) (B False)))
      \<and> fst (polyloc_partitions save a read_bim df_bins0 fs) = Inr out
      \<and> index out = ks @ index d
      \<and> (\<forall>n\<in>set SNP_COLUMNS. \<exists>c. getitem df_bins0 n = Inr c
            \<and> getitem out n = Inr (c @ replicate (nrows d) (B False)))"
proof -
  let ?df = "df_bins0\<lparr>index := ks\<rparr>"
  let ?R = "residual_labels (map bim_key (universe read_bim)) ks"
  from wf have snp: "set SNP_COLUMNS \<subseteq> set (colnames df_bins0)"
    by (simp add: wf_matrix_def)
  from df_bins_new_keyed [of "universe read_bim" ?df] obtain d where
    d: "df_bins_new (keyed_bim (universe read_bim)) ?df = Inr d"
    and id: "index d = ?R"
    and md: "\<forall>n\<in>set (colnames ?df). map_of (columns d) n = Some (replicate (length ?R) (B False))"
    by auto
  have nd: "nrows d = length ?R"
    by (simp add: nrows_def id)
  have g: "\<forall>n\<in>set SNP_COLUMNS. getitem d n = Inr (replicate (nrows d) (B False))"
  proof
    fix n assume "n \<in> set SNP_COLUMNS"
    with snp have "n \<in> set (colnames ?df)"
      by (auto simp: colnames_def)
    with md have "map_of (columns d) n = Some (replicate (length ?R) (B False))" ..
    then show "getitem d n = Inr (replicate (nrows d) (B False))"
      by (simp add: getitem_def nd)
  qed
  have out: "fst (polyloc_partitions save a read_bim df_bins0 fs) = Inr (with_residual ?df ?R)"
    using polyloc_partitions_result [OF wf fresh keys sub, of save a fs] lt by simp
  have io: "index (with_residual ?df ?R) = ks @ index d"
    by (simp add: with_residual_simps id)
  have go: "\<exists>c. getitem df_bins0 n = Inr c
      \<and> getitem (with_residual ?df ?R) n = Inr (c @ replicate (nrows d) (B False))"
    if "n \<in> set SNP_COLUMNS" for n
  proof -
    from that snp have "n \<in> set (colnames df_bins0)" by blast
    then have "map_of (columns df_bins0) n \<noteq> None"
      by (simp add: colnames_def map_of_eq_None_iff)
    then obtain c where "map_of (columns df_bins0) n = Some c" by blast
    then have c: "getitem df_bins0 n = Inr c"
      by (simp add: getitem_def)
    then have "getitem ?df n = Inr c"
      by (simp add: getitem_def)
    from getitem_with_residual [OF this, of ?R] c show ?thesis
      unfolding nd by blast
  qed
  from d id g out io go show ?thesis by blast
qed









lemma ex_bins_wf: "wf_matrix ex_bins"
  by code_simp

lemma ex_bins_free: "next_bin_free ex_bins"
  by code_simp

lemma ex_bins_one_hot: "one_hot ex_bins"
  by code_simp

lemma ex_bins_keys: "variant_keys ex_bins = Inr ex_keys"
  by code_simp

lemma ex_keys_distinct: "distinct ex_keys"
  by code_simp

lemma ex_universe_keys:
  "map bim_key (universe ex_bim)
     = [S ''rs1AC'', S ''rs2AC'', S ''rs3AC'', S ''rs4AC'', S ''rs5AC'']"
  by code_simp

lemma dup_universe_keys:
  "map bim_key (universe dup_bim) = [S ''rs1AC'', S ''rs1AC'', S ''rs2AC'', S ''rs3AC'']"
  by code_simp

lemma small_universe_keys:
  "map bim_key (universe small_bim) = [S ''rs1AC'', S ''rs2AC'']"
  by code_simp

text \<open>
  A universe that lists \<^verbatim>\<open>rs1\<close> twice is accepted: the run completes and returns the
  posterior rows with an empty third bin.
\<close>

theorem duplicate_universe_key_accepted:
  "\<not> distinct (map bim_key (universe dup_bim))
   \<and> fst (polyloc_partitions store_bins default_args dup_bim ex_bins Map.empty) =
       Inr \<lparr>index = [S ''rs1AC'', S ''rs2AC'', S ''rs3AC''],
            columns =
              [(''CHR'', [I 1, I 1, I 1]),
               (''SNP'', [S ''rs1'', S ''rs2'', S ''rs3'']),
               (''BP'', [I 100, I 100, I 100]),
               (''A1'', [S ''A'', S ''A'', S ''A'']),
               (''A2'', [S ''C'', S ''C'', S ''C'']),
               (''snpvar_bin1'', [B True, B True, B False]),
               (''snpvar_bin2'', [B False, B False, B True]),
               (''snpvar_bin3'', [B False, B False, B False])]\<rparr>"
  by code_simp

lemma ex_keys_in_universe: "set ex_keys \<subseteq> set (map bim_key (universe ex_bim))"
  unfolding ex_universe_keys by code_simp

lemma ex_keys_in_dup_universe: "set ex_keys \<subseteq> set (map bim_key (universe dup_bim))"
  unfolding dup_universe_keys by code_simp

theorem bin_partition_complete_witness:
  "\<exists>out. fst (polyloc_partitions store_bins default_args ex_bim ex_bins Map.empty) = Inr out
     \<and> one_hot out
     \<and> set (index out) = set (map bim_key (universe ex_bim))"
  by (rule bin_partition_complete [OF ex_bins_wf ex_bins_free ex_bins_one_hot ex_bins_keys
        ex_keys_distinct ex_keys_in_universe])

theorem residual_bin_construction_witness:
  "fst (polyloc_partitions store_bins default_args ex_bim ex_bins Map.empty)
     = Inr (with_residual (ex_bins\<lparr>index := ex_keys\<rparr>) [S ''rs4AC'', S ''rs5AC''])
   \<and> length [S ''rs4AC'', S ''rs5AC''] = card (set (map bim_key (universe ex_bim)) - set ex_keys)"
proof -
  have du: "distinct (map bim_key (universe ex_bim))"
    unfolding ex_universe_keys by simp
  have ne: "set (map bim_key (universe ex_bim)) - set ex_keys \<noteq> {}"
    unfolding ex_universe_keys ex_keys_def by simp
  have f: "filter (\<lambda>k. k \<notin> set ex_keys) (map bim_key (universe ex_bim)) = [S ''rs4AC'', S ''rs5AC'']"
    unfolding ex_universe_keys ex_keys_def by simp
  from residual_bin_construction [OF ex_bins_wf ex_bins_free ex_bins_keys ex_keys_distinct du
      ex_keys_in_universe, of store_bins default_args Map.empty] ne
  show ?thesis
    unfolding f by blast
qed

theorem posterior_variant_missing_rejected_witness:
  "polyloc_partitions store_bins default_args small_bim ex_bins Map.empty =
    (Inl (ValueError ''Found variants in posterior file that are not found in the plink files''),
     Map.empty)"
proof -
  have "\<not> set ex_keys \<subseteq> set (map bim_key (universe small_bim))"
    unfolding small_universe_keys ex_keys_def by simp
  from posterior_variant_missing_rejected [OF ex_bins_keys this] show ?thesis .
qed

theorem duplicate_keys_not_rejected_witness:
  "\<exists>out. fst (polyloc_partitions store_bins default_args dup_bim ex_bins Map.empty) = Inr out"
  by (rule duplicate_keys_not_rejected [OF ex_bins_wf ex_bins_free ex_bins_keys
        ex_keys_in_dup_universe])

theorem residual_rows_lose_identity_witness:
  "\<exists>d out. df_bins_new (keyed_bim (universe ex_bim)) (ex_bins\<lparr>index := ex_keys\<rparr>) = Inr d
     \<and> getitem d ''SNP'' = Inr (replicate (nrows d) (B False))
     \<and> fst (polyloc_partitions store_bins default_args ex_bim ex_bins Map.empty) = Inr out
     \<and> index out = ex_keys @ index d"
proof -
  have lt: "length ex_keys < length (universe ex_bim)"
    by code_simp
  have s: "''SNP'' \<in> set SNP_COLUMNS"
    by (simp add: SNP_COLUMNS_def)
  from residual_rows_lose_identity [OF ex_bins_wf ex_bins_free ex_bins_keys ex_keys_in_universe lt,
      of store_bins default_args Map.empty] s
  show ?thesis by blast
qed



text \<open>
  C1. Completeness fails when a posterior key is repeated. With the posterior rows
  \<^verbatim>\<open>rs1\<close>, \<^verbatim>\<open>rs1\<close>, \<^verbatim>\<open>rs2\<close> and the universe \<^verbatim>\<open>rs1\<close>, \<^verbatim>\<open>rs2\<close>, \<^verbatim>\<open>rs3\<close> every
  posterior key is in the universe, but both tables have three rows, the branch that adds
  the bin for the missing variants is not entered, and the matrix returned without an
  exception has no row for \<^verbatim>\<open>rs3\<close>.
\<close>

theorem repeated_posterior_key_leaves_variant_out:
  "variant_keys dup_bins = Inr [S ''rs1AC'', S ''rs1AC'', S ''rs2AC'']
   \<and> map bim_key (universe three_bim) = [S ''rs1AC'', S ''rs2AC'', S ''rs3AC'']
   \<and> fst (polyloc_partitions store_bins default_args three_bim dup_bins Map.empty) =
       Inr \<lparr>index = [S ''rs1AC'', S ''rs1AC'', S ''rs2AC''],
            columns =
              [(''CHR'', [I 1, I 1, I 1]),
               (''SNP'', [S ''rs1'', S ''rs1'', S ''rs2'']),
               (''BP'', [I 100, I 100, I 100]),
               (''A1'', [S ''A'', S ''A'', S ''A'']),
               (''A2'', [S ''C'', S ''C'', S ''C'']),
               (''snpvar_bin1'', [B True, B True, B False]),
               (''snpvar_bin2'', [B False, B False, B True])]\<rparr>"
  by code_simp

text \<open>
  C2. The branch that adds the bin is entered on the numbers of rows, not on the keys. With
  \<^verbatim>\<open>rs3\<close> listed on two chromosomes the universe has exactly the keys of the posterior
  matrix \<^verbatim>\<open>rs1\<close>, \<^verbatim>\<open>rs2\<close>, \<^verbatim>\<open>rs3\<close>, and a third bin column, \<^verbatim>\<open>False\<close> in every
  row, is created all the same.
\<close>

theorem equal_keys_still_add_bin:
  "variant_keys ex_bins = Inr ex_keys
   \<and> set (map bim_key (universe rs3_twice_bim)) = set ex_keys
   \<and> fst (polyloc_partitions store_bins default_args rs3_twice_bim ex_bins Map.empty) =
       Inr \<lparr>index = [S ''rs1AC'', S ''rs2AC'', S ''rs3AC''],
            columns =
              [(''CHR'', [I 1, I 1, I 1]),
               (''SNP'', [S ''rs1'', S ''rs2'', S ''rs3'']),
               (''BP'', [I 100, I 100, I 100]),
               (''A1'', [S ''A'', S ''A'', S ''A'']),
               (''A2'', [S ''C'', S ''C'', S ''C'']),
               (''snpvar_bin1'', [B True, B True, B False]),
               (''snpvar_bin2'', [B False, B False, B True]),
               (''snpvar_bin3'', [B False, B False, B False])]\<rparr>"
  by code_simp

end
